theory Spec2Isabelle
  imports Complex_Main
begin

section \<open>Python values as the validator sees them\<close>

text \<open>
  The validator (\<^verbatim>\<open>json_validator_v1.0.0.6.py\<close>, Python 2) works on values decoded by
  \<^verbatim>\<open>json.loads\<close> from unicode input: \<^verbatim>\<open>None\<close>, \<^verbatim>\<open>bool\<close>, \<^verbatim>\<open>int\<close> (\<^verbatim>\<open>long\<close> for a
  number beyond \<^verbatim>\<open>sys.maxint\<close>), \<^verbatim>\<open>float\<close>, \<^verbatim>\<open>unicode\<close>, \<^verbatim>\<open>list\<close> and \<^verbatim>\<open>dict\<close> with
  unicode keys. A unicode string is the list of its code points (of its 16-bit code units
  on a narrow build of Python), so that U+2028 and U+2029 can be written down. A dict is the list of its items in iteration order, an
  order that the hash table fixes and the program does not choose; Python keeps the keys
  of a dict distinct. Of a float only what \<^verbatim>\<open>int()\<close> asks is kept: a finite value,
  \<^verbatim>\<open>nan\<close>, or an infinity with its sign.
\<close>

type_synonym unicode = "nat list"

definition ustr :: "string \<Rightarrow> unicode" where
  "ustr s = map of_char s"

datatype pyfloat = Finite rat | NaN | Infinity bool

datatype pyval =
    PyNone
  | PyBool bool
  | PyInt int
  | PyLong int
  | PyFloat pyfloat
  | PyUnicode unicode
  | PyList "pyval list"
  | PyDict "(unicode \<times> pyval) list"
  | PyObject

text \<open>
  \<open>PyObject\<close> is a bare \<^verbatim>\<open>object()\<close> instance: the decoder never produces it, the
  schemas use it as the expected value that every candidate is an instance of.
\<close>

datatype pytype =
  T_NoneType | T_bool | T_int | T_long | T_float | T_unicode | T_list | T_dict | T_object

fun type_of :: "pyval \<Rightarrow> pytype" where
  "type_of PyNone = T_NoneType"
| "type_of (PyBool b) = T_bool"
| "type_of (PyInt i) = T_int"
| "type_of (PyLong i) = T_long"
| "type_of (PyFloat f) = T_float"
| "type_of (PyUnicode s) = T_unicode"
| "type_of (PyList xs) = T_list"
| "type_of (PyDict kvs) = T_dict"
| "type_of PyObject = T_object"

text \<open>\<^verbatim>\<open>T.__name__\<close>\<close>

fun type_name :: "pytype \<Rightarrow> string" where
  "type_name T_NoneType = ''NoneType''"
| "type_name T_bool = ''bool''"
| "type_name T_int = ''int''"
| "type_name T_long = ''long''"
| "type_name T_float = ''float''"
| "type_name T_unicode = ''unicode''"
| "type_name T_list = ''list''"
| "type_name T_dict = ''dict''"
| "type_name T_object = ''object''"

text \<open>
  \<^verbatim>\<open>isinstance(v, T)\<close>: the type of \<open>v\<close> is \<open>T\<close> or a subclass of it. Among the types
  above, \<^verbatim>\<open>bool\<close> is a subclass of \<^verbatim>\<open>int\<close> and everything is a subclass of
  \<^verbatim>\<open>object\<close>; in Python 2 \<^verbatim>\<open>long\<close> is not a subclass of \<^verbatim>\<open>int\<close>.
\<close>

definition isinstance :: "pyval \<Rightarrow> pytype \<Rightarrow> bool" where
  "isinstance v T \<longleftrightarrow> type_of v = T \<or> T = T_object \<or> (type_of v = T_bool \<and> T = T_int)"

text \<open>
  The exceptions that the validator can raise. \<^verbatim>\<open>UnicodeEncodeError\<close> is a subclass of
  \<^verbatim>\<open>ValueError\<close> (through \<^verbatim>\<open>UnicodeError\<close>), so that \<^verbatim>\<open>except (TypeError, ValueError)\<close>
  catches these three and none of the others.
\<close>

datatype exn =
  OverflowError | TypeError | ValueError | UnicodeEncodeError | IndexError | AssertionError

fun except_TypeError_ValueError :: "exn \<Rightarrow> bool" where
  "except_TypeError_ValueError TypeError = True"
| "except_TypeError_ValueError ValueError = True"
| "except_TypeError_ValueError UnicodeEncodeError = True"
| "except_TypeError_ValueError x = False"

subsection \<open>The builtins the validator calls\<close>

text \<open>\<^verbatim>\<open>unicode.isspace\<close> on one code point (the table of Python 2.7).\<close>

definition py_isspace :: "nat \<Rightarrow> bool" where
  "py_isspace c \<longleftrightarrow>
     (9 \<le> c \<and> c \<le> 13) \<or> (28 \<le> c \<and> c \<le> 32) \<or> c = 133 \<or> c = 160 \<or> c = 5760 \<or> c = 6158 \<or>
     (8192 \<le> c \<and> c \<le> 8202) \<or> c = 8232 \<or> c = 8233 \<or> c = 8239 \<or> c = 8287 \<or> c = 12288"

text \<open>\<^verbatim>\<open>s.strip()\<close>\<close>

definition py_strip :: "unicode \<Rightarrow> unicode" where
  "py_strip s = rev (dropWhile py_isspace (rev (dropWhile py_isspace s)))"

text \<open>
  \<^verbatim>\<open>Py_UNICODE_TODECIMAL\<close>: the decimal digits of all scripts stand in runs of ten, from
  the digit zero on. These are the digits zero of the Unicode database of Python 2.7
  (Unicode 5.2); the five runs of mathematical digits follow one another. In that
  database U+19DA, the second digit one of New Tai Lue, is a decimal digit too.
\<close>

definition decimal_zeros :: "nat list" where
  "decimal_zeros =
     [0x30, 0x660, 0x6F0, 0x7C0, 0x966, 0x9E6, 0xA66, 0xAE6, 0xB66, 0xBE6, 0xC66, 0xCE6,
      0xD66, 0xE50, 0xED0, 0xF20, 0x1040, 0x1090, 0x17E0, 0x1810, 0x1946, 0x19D0, 0x1A80,
      0x1A90, 0x1B50, 0x1BB0, 0x1C40, 0x1C50, 0xA620, 0xA8D0, 0xA900, 0xA9D0, 0xAA50,
      0xABF0, 0xFF10, 0x104A0, 0x1D7CE, 0x1D7D8, 0x1D7E2, 0x1D7EC, 0x1D7F6]"

definition to_decimal :: "nat \<Rightarrow> nat option" where
  "to_decimal c =
     (case find (\<lambda>z. z \<le> c \<and> c < z + 10) decimal_zeros of
        Some z \<Rightarrow> Some (c - z)
      | None \<Rightarrow> if c = 0x19DA then Some 1 else None)"

text \<open>
  \<^verbatim>\<open>PyUnicode_EncodeDecimal\<close>, the first step of \<^verbatim>\<open>int(s)\<close> on a unicode string: white
  space becomes a blank, a decimal digit of any script the ASCII digit of its value, a
  character from 1 to 255 stays, and any other character is an error, the
  \<^verbatim>\<open>UnicodeEncodeError\<close> of the codec \<^verbatim>\<open>decimal\<close>.
\<close>

fun encode_decimal :: "unicode \<Rightarrow> unicode option" where
  "encode_decimal [] = Some []"
| "encode_decimal (c # cs) =
     (case (if py_isspace c then Some 32
            else (case to_decimal c of
                    Some d \<Rightarrow> Some (48 + d)
                  | None \<Rightarrow> if 0 < c \<and> c < 256 then Some c else None)) of
        None \<Rightarrow> None
      | Some b \<Rightarrow> (case encode_decimal cs of None \<Rightarrow> None | Some bs \<Rightarrow> Some (b # bs)))"

text \<open>\<^verbatim>\<open>isspace\<close> and the digits of C, on the characters so encoded.\<close>

definition c_isspace :: "nat \<Rightarrow> bool" where
  "c_isspace c \<longleftrightarrow> c = 32 \<or> (9 \<le> c \<and> c \<le> 13)"

definition is_digit :: "nat \<Rightarrow> bool" where
  "is_digit c \<longleftrightarrow> 48 \<le> c \<and> c \<le> 57"

fun digits_value :: "int \<Rightarrow> unicode \<Rightarrow> int" where
  "digits_value acc [] = acc"
| "digits_value acc (c # cs) = digits_value (10 * acc + int (c - 48)) cs"

text \<open>
  \<^verbatim>\<open>int(s)\<close> for a unicode string, base 10 (\<^verbatim>\<open>PyInt_FromUnicode\<close>): the string is
  encoded as above, and then read by \<^verbatim>\<open>PyInt_FromString\<close> as white space, an optional
  sign, white space again (Python 2 skips it), at least one digit, white space. Anything
  else is a \<^verbatim>\<open>ValueError\<close>. A number beyond \<^verbatim>\<open>sys.maxint\<close> is read again as a \<^verbatim>\<open>long\<close>,
  with the same value.
\<close>

definition py_int_text :: "unicode \<Rightarrow> exn + int" where
  "py_int_text s =
     (case encode_decimal s of
        None \<Rightarrow> Inl UnicodeEncodeError
      | Some b \<Rightarrow>
          (let t = dropWhile c_isspace b;
               sign = (case t of c # r \<Rightarrow> if c = 45 then - 1 else 1 | [] \<Rightarrow> (1::int));
               t1 = (case t of c # r \<Rightarrow> if c = 43 \<or> c = 45 then r else t | [] \<Rightarrow> []);
               t2 = dropWhile c_isspace t1;
               ds = takeWhile is_digit t2;
               rest = dropWhile is_digit t2
           in if ds \<noteq> [] \<and> list_all c_isspace rest then Inr (sign * digits_value 0 ds)
              else Inl ValueError))"

text \<open>
  \<^verbatim>\<open>int(v)\<close>: a number converts (a float is truncated; \<^verbatim>\<open>nan\<close> is a
  \<^verbatim>\<open>ValueError\<close>, an infinity an \<^verbatim>\<open>OverflowError\<close>), a string is parsed, and
  \<^verbatim>\<open>None\<close>, a list, a dict or a bare object is a \<^verbatim>\<open>TypeError\<close>.
\<close>

fun py_int :: "pyval \<Rightarrow> exn + int" where
  "py_int PyNone = Inl TypeError"
| "py_int (PyBool b) = Inr (if b then 1 else 0)"
| "py_int (PyInt i) = Inr i"
| "py_int (PyLong i) = Inr i"
| "py_int (PyFloat (Finite r)) = Inr (if 0 \<le> r then \<lfloor>r\<rfloor> else \<lceil>r\<rceil>)"
| "py_int (PyFloat NaN) = Inl ValueError"
| "py_int (PyFloat (Infinity b)) = Inl OverflowError"
| "py_int (PyUnicode s) = py_int_text s"
| "py_int (PyList xs) = Inl TypeError"
| "py_int (PyDict kvs) = Inl TypeError"
| "py_int PyObject = Inl TypeError"

text \<open>
  \<^verbatim>\<open>v == int()\<close>, that is \<^verbatim>\<open>v == 0\<close>: Python compares numbers by value, so \<^verbatim>\<open>False\<close>,
  \<^verbatim>\<open>0L\<close> and \<^verbatim>\<open>0.0\<close> are equal to \<^verbatim>\<open>0\<close>.
\<close>

fun equals_int0 :: "pyval \<Rightarrow> bool" where
  "equals_int0 (PyBool b) = (\<not> b)"
| "equals_int0 (PyInt i) = (i = 0)"
| "equals_int0 (PyLong i) = (i = 0)"
| "equals_int0 (PyFloat (Finite r)) = (r = 0)"
| "equals_int0 v = False"

section \<open>The line reader\<close>

definition JSON_UNICODE_PROBLEMS :: "nat list" where
  "JSON_UNICODE_PROBLEMS = [0x2028, 0x2029]"

text \<open>
  The input file is an iterator of physical lines: \<open>f.next()\<close> gives the next line, and
  at the end raises \<^verbatim>\<open>StopIteration\<close>, or \<^verbatim>\<open>UnicodeDecodeError\<close> when the bytes that
  follow are not UTF-8.
\<close>

datatype stream_end = StopIteration | UnicodeDecodeError string

type_synonym input_file = "unicode list \<times> stream_end"

text \<open>How a generator ends: it returns, or an exception leaves it.\<close>

datatype gen_end = Returned | RaisedDecodeError string | Raised exn

text \<open>
  \<^verbatim>\<open>safe_file_reader\<close> is a generator; the model gives the lines it yields, in order,
  and how it ends. \<open>nextLine\<close> is the fragment read so far. \<^verbatim>\<open>nextLine[-1]\<close> on an
  empty string is an \<^verbatim>\<open>IndexError\<close>.
\<close>

fun safe_file_reader_loop :: "unicode \<Rightarrow> unicode list \<Rightarrow> stream_end \<Rightarrow> unicode list \<times> gen_end" where
  "safe_file_reader_loop nextLine [] StopIteration =
     (if nextLine \<noteq> [] then [nextLine] else [], Returned)"
| "safe_file_reader_loop nextLine [] (UnicodeDecodeError e) = ([], RaisedDecodeError e)"
| "safe_file_reader_loop nextLine (l # ls) e =
     (let nextLine = nextLine @ l in
      if nextLine = [] then ([], Raised IndexError)
      else if last nextLine \<in> set JSON_UNICODE_PROBLEMS then safe_file_reader_loop nextLine ls e
      else (case safe_file_reader_loop [] ls e of (ys, t) \<Rightarrow> (nextLine # ys, t)))"

definition safe_file_reader :: "input_file \<Rightarrow> unicode list \<times> gen_end" where
  "safe_file_reader f = safe_file_reader_loop [] (fst f) (snd f)"

text \<open>\<^verbatim>\<open>valid_entry\<close>\<close>

fun valid_entry :: "pyval \<Rightarrow> bool" where
  "valid_entry (PyUnicode field) = (py_strip field \<noteq> [])"
| "valid_entry v = True"

section \<open>Fields and checkers\<close>

text \<open>
  A \<^verbatim>\<open>Field\<close> has a name, an expected value and the names it must not appear with. The
  expected value is a live example instance (\<^verbatim>\<open>int()\<close>, \<^verbatim>\<open>unicode()\<close>, \<^verbatim>\<open>bool()\<close>,
  \<^verbatim>\<open>object()\<close>) or a nested \<^verbatim>\<open>FieldChecker\<close>. The constructor flag \<^verbatim>\<open>all_required\<close>
  is stored and never read, so the model leaves it out.
\<close>

text \<open>
  \<open>DictFieldChecker required optional historical\<close>,
  \<open>DictTypeChecker expectedKeyTypeInstance expectedValueTypeInstance\<close>,
  \<open>StringListChecker fields\<close>, \<open>ListTypeChecker expectedTypeInstance\<close>.
\<close>

datatype checker =
    DictFieldChecker "field list" "field list" "field list"
  | DictTypeChecker expected expected
  | StringListChecker "unicode list"
  | ListTypeChecker expected
and field =
    Field (name: unicode) (expectedValue: expected) (disallowedFields: "unicode list")
and expected =
    Instance pyval
  | Checker checker

fun topLevelType :: "checker \<Rightarrow> pytype" where
  "topLevelType (DictFieldChecker req opt hist) = T_dict"
| "topLevelType (DictTypeChecker k v) = T_dict"
| "topLevelType (StringListChecker fs) = T_unicode"
| "topLevelType (ListTypeChecker e) = T_list"

text \<open>
  \<^verbatim>\<open>self.optional_dict = dict([(x.name, x) for x in historical + optional])\<close>: of two
  fields with one name the later one stays.
\<close>

definition optional_dict :: "field list \<Rightarrow> unicode \<rightharpoonup> field" where
  "optional_dict fs = map_of (rev (map (\<lambda>x. (name x, x)) fs))"

subsection \<open>Messages\<close>

text \<open>
  An error or warning is kept as the format of its text with the values the source puts
  into it; the text itself needs \<^verbatim>\<open>unicode(v)\<close> and \<^verbatim>\<open>repr\<close>, which are not modelled.
  \<^item> \<open>Expected_type e a\<close>: \<^verbatim>\<open>Expected type: "e", but found type: "a"\<close>
  \<^item> \<open>Had_incorrect_type f v e a\<close>: \<^verbatim>\<open>f "v" had incorrect type. Expected: "e" but found: "a"\<close>
  \<^item> \<open>Was_required f v\<close>: \<^verbatim>\<open>"f" was required, but found an invalid entry of "v"\<close>
  \<^item> \<open>Not_in_list c fs\<close>: \<^verbatim>\<open>Element "c" was not in list fs\<close>
  \<^item> \<open>Found_error_in_element i m\<close>: \<^verbatim>\<open>Found error in element at index i: m\<close>
  \<^item> \<open>Element_had_incorrect_type i e a\<close>:
    \<^verbatim>\<open>Element at index i had incorrect type. Expected: "e" but found: "a"\<close>
  \<^item> \<open>Found_error_in_field f m\<close>: \<^verbatim>\<open>Found error in field "f": m\<close>
  \<^item> \<open>Field_had_incorrect_type f e a\<close>:
    \<^verbatim>\<open>Field "f" had incorrect type. Expected: "e" but found: "a"\<close>
  \<^item> \<open>Fields_not_allowed f u\<close>:
    \<^verbatim>\<open>Fields 'f' and 'u' are not allowed to be attached to the same entity.\<close>
  \<^item> \<open>Did_not_find_required_field f\<close>: \<^verbatim>\<open>Did not find required field "f"\<close>
  \<^item> \<open>Unexpected_field f\<close>: \<^verbatim>\<open>Unexpected field "f" found.\<close>
\<close>

datatype message =
    Expected_type string string
  | Had_incorrect_type unicode pyval string string
  | Was_required unicode pyval
  | Not_in_list unicode "unicode list"
  | Found_error_in_element nat message
  | Element_had_incorrect_type nat string string
  | Found_error_in_field unicode message
  | Field_had_incorrect_type unicode string string
  | Fields_not_allowed unicode unicode
  | Did_not_find_required_field unicode
  | Unexpected_field unicode


type_synonym messages = "message list \<times> message list"

type_synonym result = "exn + messages"

subsection \<open>Validation\<close>

text \<open>\<^verbatim>\<open>DictFieldChecker._type_error\<close>\<close>

definition type_error :: "unicode \<Rightarrow> pyval \<Rightarrow> pyval \<Rightarrow> message" where
  "type_error fieldName expectedItem actualItem =
     Field_had_incorrect_type fieldName (type_name (type_of expectedItem))
       (type_name (type_of actualItem))"

text \<open>The last loop of \<^verbatim>\<open>DictFieldChecker._check_field\<close>, over \<open>disallowedFields\<close>.\<close>

fun check_disallowed :: "unicode \<Rightarrow> unicode list \<Rightarrow> unicode list \<Rightarrow> message list \<Rightarrow> message list" where
  "check_disallowed n [] candidateFields errors = errors"
| "check_disallowed n (unallowed # rest) candidateFields errors =
     check_disallowed n rest candidateFields
       (if unallowed \<in> set candidateFields then errors @ [Fields_not_allowed n unallowed]
        else errors)"

text \<open>\<^verbatim>\<open>StringListChecker._validate\<close>\<close>

definition StringListChecker_validate :: "unicode list \<Rightarrow> pyval \<Rightarrow> bool \<Rightarrow> result" where
  "StringListChecker_validate fs candidate required =
     (case candidate of
        PyUnicode c \<Rightarrow> Inr (if c \<notin> set fs then [Not_in_list c fs] else [], [])
      | _ \<Rightarrow> Inl AssertionError)"

text \<open>\<^verbatim>\<open>candidate.pop(fieldName)\<close>: what is left of the dict.\<close>

definition dict_pop :: "unicode \<Rightarrow> (unicode \<times> pyval) list \<Rightarrow> (unicode \<times> pyval) list" where
  "dict_pop k d = filter (\<lambda>kv. fst kv \<noteq> k) d"

text \<open>
  The arguments of one call of the functions below, for the termination proof: a nested
  call is on a smaller checker, and a loop goes on with a shorter list.
\<close>

type_synonym validate_call =
  "((checker \<times> pyval \<times> bool +
       unicode \<times> pyval \<times> field \<times> unicode list \<times> messages \<times> bool) +
      field list \<times> (unicode \<times> pyval) list \<times> unicode list \<times> messages +
      field list \<times> (unicode \<times> pyval) list \<times> unicode list \<times> messages +
      field list \<times> field list \<times> field list \<times> pyval \<times> bool) +
     (unicode \<times> pyval \<times> expected \<times> messages \<times> bool +
      expected \<times> expected \<times> (unicode \<times> pyval) list \<times> messages \<times> bool) +
     expected \<times> expected \<times> pyval \<times> bool +
     expected \<times> nat \<times> pyval list \<times> messages \<times> bool +
     expected \<times> pyval \<times> bool"

definition call_size :: "validate_call \<Rightarrow> nat" where
  "call_size x =
     (case x of
        Inl (Inl (Inl (c, v, r))) \<Rightarrow> size c
      | Inl (Inl (Inr (n, v, vf, cfs, st, r))) \<Rightarrow> size vf
      | Inl (Inr (Inl (fs, cand, cfs, st))) \<Rightarrow> size_list size fs
      | Inl (Inr (Inr (Inl (fs, cand, cfs, st)))) \<Rightarrow> size_list size fs
      | Inl (Inr (Inr (Inr (req, opt, hist, v, r)))) \<Rightarrow>
          Suc (size_list size req + size_list size opt + size_list size hist)
      | Inr (Inl (Inl (n, v, e, st, r))) \<Rightarrow> size e
      | Inr (Inl (Inr (k, v, kvs, st, r))) \<Rightarrow> size k + size v
      | Inr (Inr (Inl (k, v, cand, r))) \<Rightarrow> Suc (size k + size v)
      | Inr (Inr (Inr (Inl (e, pos, xs, st, r)))) \<Rightarrow> size e
      | Inr (Inr (Inr (Inr (e, cand, r)))) \<Rightarrow> Suc (size e))"

definition call_rank :: "validate_call \<Rightarrow> nat" where
  "call_rank x =
     (case x of
        Inl (Inl (Inl (c, v, r))) \<Rightarrow> 1
      | Inl (Inl (Inr (n, v, vf, cfs, st, r))) \<Rightarrow> 0
      | Inl (Inr (Inl (fs, cand, cfs, st))) \<Rightarrow> 0
      | Inl (Inr (Inr (Inl (fs, cand, cfs, st)))) \<Rightarrow> length cand
      | Inl (Inr (Inr (Inr (req, opt, hist, v, r)))) \<Rightarrow> 0
      | Inr (Inl (Inl (n, v, e, st, r))) \<Rightarrow> 0
      | Inr (Inl (Inr (k, v, kvs, st, r))) \<Rightarrow> Suc (length kvs)
      | Inr (Inr (Inl (k, v, cand, r))) \<Rightarrow> 0
      | Inr (Inr (Inr (Inl (e, pos, xs, st, r)))) \<Rightarrow> length xs
      | Inr (Inr (Inr (Inr (e, cand, r)))) \<Rightarrow> 0)"

lemma optional_dict_size_list:
  "optional_dict fs k = Some vf \<Longrightarrow> size vf < size_list size fs"
proof -
  assume "optional_dict fs k = Some vf"
  then have "(k, vf) \<in> set (rev (map (\<lambda>x. (name x, x)) fs))"
    unfolding optional_dict_def by (rule map_of_SomeD)
  then have "vf \<in> set fs" by auto
  then show ?thesis by (induction fs) auto
qed

lemma expectedValue_size: "expectedValue vf = Checker c \<Longrightarrow> size c < size vf"
  by (cases vf) auto

text \<open>
  \<^verbatim>\<open>FieldChecker.validate\<close> and the \<^verbatim>\<open>_validate\<close> and \<^verbatim>\<open>_check_field\<close> of its
  subclasses; the call of \<^verbatim>\<open>self._validate\<close> is the case distinction on the checker. The
  lists \<open>errors\<close> and \<open>warnings\<close> that the source appends to are passed in and returned.
  An exception that the source does not catch is the result \<open>Inl\<close>.
  \<^item> \<open>DictFieldChecker_required\<close> is the loop \<^verbatim>\<open>for field in self.required\<close> of
    \<^verbatim>\<open>DictFieldChecker._validate\<close>; \<open>candidate\<close> is the copy of the dict that the loop pops
    from, and is returned with the messages.
  \<^item> \<open>DictFieldChecker_remaining\<close> is the loop over \<^verbatim>\<open>candidate.items()\<close> that follows; its
    first argument is \<^verbatim>\<open>historical + optional\<close>, the list that \<open>optional_dict\<close> is made
    of. \<^verbatim>\<open>candidate[fieldName]\<close> is the value of the item, the keys being distinct.
  \<^item> \<open>candidate_fields\<close> is \<^verbatim>\<open>originalCandidate.keys()\<close>.
  \<^item> \<open>DictTypeChecker_items\<close> is the loop over \<^verbatim>\<open>candidateDict.iteritems()\<close>, and
    \<open>ListTypeChecker_elements\<close> the loop over \<^verbatim>\<open>enumerate(candidateList)\<close>, at index \<open>pos\<close>.
  \<^item> In \<^verbatim>\<open>DictTypeChecker._check_field\<close> a nested checker's \<^verbatim>\<open>validate\<close> returns a pair
    of lists, and the source adds a string to the first of them: a \<^verbatim>\<open>TypeError\<close>.
  \<^item> \<^verbatim>\<open>int(candidateField)\<close> raises \<^verbatim>\<open>OverflowError\<close> on an infinite float, which the
    \<^verbatim>\<open>except (TypeError, ValueError)\<close> does not catch.
\<close>

function (sequential)
  validate :: "checker \<Rightarrow> pyval \<Rightarrow> bool \<Rightarrow> result"
and DictFieldChecker_check_field ::
  "unicode \<Rightarrow> pyval \<Rightarrow> field \<Rightarrow> unicode list \<Rightarrow> messages \<Rightarrow> bool \<Rightarrow> exn + messages"
and DictFieldChecker_required ::
  "field list \<Rightarrow> (unicode \<times> pyval) list \<Rightarrow> unicode list \<Rightarrow> messages \<Rightarrow>
   exn + ((unicode \<times> pyval) list \<times> messages)"
and DictFieldChecker_remaining ::
  "field list \<Rightarrow> (unicode \<times> pyval) list \<Rightarrow> unicode list \<Rightarrow> messages \<Rightarrow> exn + messages"
and DictFieldChecker_validate ::
  "field list \<Rightarrow> field list \<Rightarrow> field list \<Rightarrow> pyval \<Rightarrow> bool \<Rightarrow> result"
and DictTypeChecker_check_field ::
  "unicode \<Rightarrow> pyval \<Rightarrow> expected \<Rightarrow> messages \<Rightarrow> bool \<Rightarrow> exn + messages"
and DictTypeChecker_items ::
  "expected \<Rightarrow> expected \<Rightarrow> (unicode \<times> pyval) list \<Rightarrow> messages \<Rightarrow> bool \<Rightarrow> exn + messages"
and DictTypeChecker_validate :: "expected \<Rightarrow> expected \<Rightarrow> pyval \<Rightarrow> bool \<Rightarrow> result"
and ListTypeChecker_elements ::
  "expected \<Rightarrow> nat \<Rightarrow> pyval list \<Rightarrow> messages \<Rightarrow> bool \<Rightarrow> exn + messages"
and ListTypeChecker_validate :: "expected \<Rightarrow> pyval \<Rightarrow> bool \<Rightarrow> result"
where
  "validate c candidate required =
     (if \<not> isinstance candidate (topLevelType c)
      then Inr ([Expected_type (type_name (topLevelType c)) (type_name (type_of candidate))], [])
      else (case c of
              DictFieldChecker req opt hist \<Rightarrow> DictFieldChecker_validate req opt hist candidate required
            | DictTypeChecker k v \<Rightarrow> DictTypeChecker_validate k v candidate required
            | StringListChecker fs \<Rightarrow> StringListChecker_validate fs candidate required
            | ListTypeChecker e \<Rightarrow> ListTypeChecker_validate e candidate required))"
| "DictFieldChecker_check_field fieldName candidateField validationField candidateFields
       (errors, warnings) required =
     (case
        (case expectedValue validationField of
           Checker c \<Rightarrow>
             (case validate c candidateField required of
                Inl x \<Rightarrow> Inl x
              | Inr (errs, warns) \<Rightarrow>
                  Inr (errors @ map (Found_error_in_field fieldName) errs, warnings @ warns))
         | Instance ev \<Rightarrow>
             if \<not> isinstance candidateField (type_of ev) then
               if type_of ev = T_int then
                 (case py_int candidateField of
                    Inr i \<Rightarrow> Inr (errors, warnings)
                  | Inl x \<Rightarrow>
                      if except_TypeError_ValueError x
                      then Inr (errors @ [type_error fieldName (PyInt 0) candidateField], warnings)
                      else Inl x)
               else Inr (errors @ [type_error fieldName ev candidateField], warnings)
             else Inr (errors, warnings)) of
        Inl x \<Rightarrow> Inl x
      | Inr (errors, warnings) \<Rightarrow>
          Inr (check_disallowed (name validationField) (disallowedFields validationField)
                 candidateFields errors,
               if required \<and> \<not> valid_entry candidateField
               then warnings @ [Was_required fieldName candidateField] else warnings))"
| "DictFieldChecker_required [] candidate candidate_fields st = Inr (candidate, st)"
| "DictFieldChecker_required (fld # rest) candidate candidate_fields (errors, warnings) =
     (case map_of candidate (name fld) of
        None \<Rightarrow>
          DictFieldChecker_required rest candidate candidate_fields
            (errors @ [Did_not_find_required_field (name fld)], warnings)
      | Some candidateField \<Rightarrow>
          (case DictFieldChecker_check_field (name fld) candidateField fld candidate_fields
                  (errors, warnings) True of
             Inl x \<Rightarrow> Inl x
           | Inr st \<Rightarrow>
               DictFieldChecker_required rest (dict_pop (name fld) candidate) candidate_fields st))"
| "DictFieldChecker_remaining fs [] candidate_fields st = Inr st"
| "DictFieldChecker_remaining fs ((fieldName, v) # rest) candidate_fields (errors, warnings) =
     (case optional_dict fs fieldName of
        Some validationField \<Rightarrow>
          (case DictFieldChecker_check_field fieldName v validationField candidate_fields
                  (errors, warnings) False of
             Inl x \<Rightarrow> Inl x
           | Inr st \<Rightarrow> DictFieldChecker_remaining fs rest candidate_fields st)
      | None \<Rightarrow>
          DictFieldChecker_remaining fs rest candidate_fields
            (errors @ [Unexpected_field fieldName], warnings))"
| "DictFieldChecker_validate req opt hist originalCandidate required =
     (case originalCandidate of
        PyDict kvs \<Rightarrow>
          (case DictFieldChecker_required req kvs (map fst kvs) ([], []) of
             Inl x \<Rightarrow> Inl x
           | Inr (candidate, st) \<Rightarrow>
               DictFieldChecker_remaining (hist @ opt) candidate (map fst kvs) st)
      | _ \<Rightarrow> Inl AssertionError)"
| "DictTypeChecker_check_field fieldName candidateField expectedVal (errors, warnings) required =
     (case
        (case expectedVal of
           Checker c \<Rightarrow>
             (case validate c candidateField False of
                Inl x \<Rightarrow> Inl x
              | Inr r \<Rightarrow> Inl TypeError)
         | Instance ev \<Rightarrow>
             if \<not> isinstance candidateField (type_of ev) then
               if equals_int0 ev then
                 (case py_int candidateField of
                    Inr i \<Rightarrow> Inr errors
                  | Inl x \<Rightarrow>
                      if except_TypeError_ValueError x
                      then Inr (errors @ [Had_incorrect_type fieldName candidateField ''int''
                                           (type_name (type_of candidateField))])
                      else Inl x)
               else Inr (errors @ [Had_incorrect_type fieldName candidateField
                                     (type_name (type_of ev)) (type_name (type_of candidateField))])
             else Inr errors) of
        Inl x \<Rightarrow> Inl x
      | Inr errors \<Rightarrow>
          Inr (errors,
               if required \<and> \<not> valid_entry candidateField
               then warnings @ [Was_required fieldName candidateField] else warnings))"
| "DictTypeChecker_items k v [] st required = Inr st"
| "DictTypeChecker_items k v ((key, val) # rest) st required =
     (case DictTypeChecker_check_field (ustr ''key'') (PyUnicode key) k st required of
        Inl x \<Rightarrow> Inl x
      | Inr st \<Rightarrow>
          (case DictTypeChecker_check_field (ustr ''value'') val v st required of
             Inl x \<Rightarrow> Inl x
           | Inr st \<Rightarrow> DictTypeChecker_items k v rest st required))"
| "DictTypeChecker_validate k v candidateDict required =
     (case candidateDict of
        PyDict kvs \<Rightarrow> DictTypeChecker_items k v kvs ([], []) required
      | _ \<Rightarrow> Inl AssertionError)"
| "ListTypeChecker_elements e pos [] st required = Inr st"
| "ListTypeChecker_elements e pos (elem # rest) (errors, warnings) required =
     (case e of
        Checker c \<Rightarrow>
          (case validate c elem required of
             Inl x \<Rightarrow> Inl x
           | Inr (errs, warns) \<Rightarrow>
               ListTypeChecker_elements e (Suc pos) rest
                 (errors @ map (Found_error_in_element pos) errs, warnings @ warns) required)
      | Instance ev \<Rightarrow>
          ListTypeChecker_elements e (Suc pos) rest
            (if \<not> isinstance elem (type_of ev)
             then errors @ [Element_had_incorrect_type pos (type_name (type_of ev))
                              (type_name (type_of elem))]
             else errors, warnings) required)"
| "ListTypeChecker_validate e candidateList required =
     (case candidateList of
        PyList xs \<Rightarrow> ListTypeChecker_elements e 0 xs ([], []) required
      | _ \<Rightarrow> Inl AssertionError)"
  by pat_completeness auto

termination
proof (relation "measures [call_size, call_rank]")
qed (auto simp: call_size_def call_rank_def dest: optional_dict_size_list expectedValue_size)

section \<open>The driver\<close>

text \<open>
  The errors of \<^verbatim>\<open>_validateFile\<close>, one for a line:
  \<^item> \<open>Found_invalid_JSON n e\<close>: \<^verbatim>\<open>Line n: Found invalid JSON: e\<close>
  \<^item> \<open>Does_not_match_schema n ms\<close>:
    \<^verbatim>\<open>Line n: Found valid JSON which does not match expected schema:\<close> and the
    messages \<open>ms\<close>
  \<^item> \<open>Found_invalid_UTF8 n e\<close>: \<^verbatim>\<open>Line n: Found invalid UTF-8 characters. ...: e\<close>
\<close>

datatype line_error =
    Found_invalid_JSON int string
  | Does_not_match_schema int "message list"
  | Found_invalid_UTF8 int string

text \<open>\<open>(errors, warnings, lineCount + 1, stoppedEarly)\<close>\<close>

type_synonym file_result = "line_error list \<times> message list \<times> int \<times> bool"

text \<open>
  The text of a warning:
  \<^verbatim>\<open>'"' + fieldName + '" was required, but found an invalid entry of "' +\<close>
  \<^verbatim>\<open>unicode(candidateField) + '"'\<close>.
  Only a unicode string is an invalid entry, and \<^verbatim>\<open>unicode(s)\<close> of a unicode string is the
  string: every warning that \<open>validate\<close> returns is a \<open>blank_warning\<close>, the warning for a
  unicode string that is empty after \<^verbatim>\<open>strip()\<close> (lemma \<open>validate_warnings\<close>).
\<close>

fun blank_warning :: "message \<Rightarrow> bool" where
  "blank_warning (Was_required fieldName (PyUnicode s)) = (py_strip s = [])"
| "blank_warning m = False"

fun warning_text :: "message \<Rightarrow> unicode" where
  "warning_text (Was_required fieldName (PyUnicode s)) =
     ustr ''\"'' @ fieldName @ ustr ''\" was required, but found an invalid entry of \"'' @ s @
     ustr ''\"''"
| "warning_text m = []"

text \<open>
  \<^verbatim>\<open>print 'line %d: warning - %s' % (lineCount, warn)\<close> writes a unicode string to
  \<^verbatim>\<open>sys.stdout\<close>, which encodes it and raises \<^verbatim>\<open>UnicodeEncodeError\<close> on a character that
  its encoding does not have. The encoding is that of the terminal, or ASCII when the
  output goes to a pipe or a file: it is the parameter \<open>stdout\<close>, the code points that can
  be encoded. Every such encoding has the ASCII characters, and the text before the
  warning is ASCII.
\<close>

definition print_raises :: "(nat \<Rightarrow> bool) \<Rightarrow> unicode \<Rightarrow> bool" where
  "print_raises stdout text \<longleftrightarrow> list_ex (\<lambda>c. 128 \<le> c \<and> \<not> stdout c) text"

text \<open>
  The \<^verbatim>\<open>for lineCount, line in enumerate(reader)\<close> loop of \<^verbatim>\<open>_validateFile\<close>, with what
  follows it. \<open>loads\<close> is \<^verbatim>\<open>json.loads\<close>, the decoder of the JSON library: \<open>Inl e\<close> is
  its \<^verbatim>\<open>ValueError\<close>. \<open>idx\<close> is the index that \<^verbatim>\<open>enumerate\<close> gives the line. The lines
  are those the reader yields and \<open>t\<close> is how the reader ends; the loop asks for a line
  only when it gets there, so after a \<^verbatim>\<open>break\<close> the end of the reader is not seen.
  Each warning is printed before it is kept, and a \<^verbatim>\<open>print\<close> that raises ends the run:
  \<^verbatim>\<open>except UnicodeDecodeError\<close> does not catch its \<^verbatim>\<open>UnicodeEncodeError\<close>. The notice of
  every 10000th line is ASCII text, and printing it changes nothing.
\<close>

fun validateFile_loop ::
  "(nat \<Rightarrow> bool) \<Rightarrow> (unicode \<Rightarrow> string + pyval) \<Rightarrow> checker \<Rightarrow> int \<Rightarrow> unicode list \<Rightarrow>
   gen_end \<Rightarrow> int \<Rightarrow> line_error list \<times> message list \<times> int \<Rightarrow> exn + file_result" where
  "validateFile_loop stdout loads ingestion_fields max_errors [] t idx
       (errors, warnings, lineCount) =
     (case t of
        Returned \<Rightarrow> Inr (errors, warnings, lineCount + 1, False)
      | RaisedDecodeError e \<Rightarrow>
          Inr (errors @ [Found_invalid_UTF8 (lineCount + 1) e], warnings, lineCount + 1, False)
      | Raised x \<Rightarrow> Inl x)"
| "validateFile_loop stdout loads ingestion_fields max_errors (line # rest) t idx
       (errors, warnings, lineCount0) =
     (let lineCount = idx in
      if max_errors > 0 \<and> int (length errors) \<ge> max_errors
      then Inr (errors, warnings, (lineCount - 1) + 1, True)
      else
        (case loads line of
           Inl e \<Rightarrow>
             validateFile_loop stdout loads ingestion_fields max_errors rest t (idx + 1)
               (errors @ [Found_invalid_JSON (lineCount + 1) e], warnings, lineCount)
         | Inr candidate \<Rightarrow>
             (case validate ingestion_fields candidate True of
                Inl x \<Rightarrow> Inl x
              | Inr (validateErrors, warns) \<Rightarrow>
                  if list_ex (\<lambda>warn. print_raises stdout (warning_text warn)) warns
                  then Inl UnicodeEncodeError
                  else
                    validateFile_loop stdout loads ingestion_fields max_errors rest t (idx + 1)
                      (if length validateErrors > 0
                       then errors @ [Does_not_match_schema (lineCount + 1) validateErrors]
                       else errors,
                       warnings @ warns, lineCount))))"

text \<open>\<^verbatim>\<open>_validateFile\<close>\<close>

definition validateFile ::
  "(nat \<Rightarrow> bool) \<Rightarrow> (unicode \<Rightarrow> string + pyval) \<Rightarrow> input_file \<Rightarrow> checker \<Rightarrow> int \<Rightarrow>
   exn + file_result" where
  "validateFile stdout loads input_file ingestion_fields max_errors =
     (case safe_file_reader input_file of
        (lines, t) \<Rightarrow>
          validateFile_loop stdout loads ingestion_fields max_errors lines t 0 ([], [], 0))"

text \<open>
  How the loop takes one line. On an \<open>error_line\<close> the loop body appends one error:
  the decoder raises its \<^verbatim>\<open>ValueError\<close>, or \<^verbatim>\<open>validate\<close> returns some errors. On a
  \<open>raising_line\<close> \<^verbatim>\<open>validate\<close> or the \<^verbatim>\<open>print\<close> of a warning raises an exception, which
  \<^verbatim>\<open>_validateFile\<close> does not catch.
\<close>

definition error_line :: "(unicode \<Rightarrow> string + pyval) \<Rightarrow> checker \<Rightarrow> unicode \<Rightarrow> bool" where
  "error_line loads ck line =
     (case loads line of
        Inl e \<Rightarrow> True
      | Inr candidate \<Rightarrow>
          (case validate ck candidate True of
             Inl x \<Rightarrow> False
           | Inr (validateErrors, warns) \<Rightarrow> validateErrors \<noteq> []))"

definition raising_line ::
  "(nat \<Rightarrow> bool) \<Rightarrow> (unicode \<Rightarrow> string + pyval) \<Rightarrow> checker \<Rightarrow> unicode \<Rightarrow> bool" where
  "raising_line stdout loads ck line =
     (case loads line of
        Inl e \<Rightarrow> False
      | Inr candidate \<Rightarrow>
          (case validate ck candidate True of
             Inl x \<Rightarrow> True
           | Inr (validateErrors, warns) \<Rightarrow>
               list_ex (\<lambda>warn. print_raises stdout (warning_text warn)) warns))"

section \<open>The schemas\<close>

definition track_fields :: checker where
  "track_fields = DictFieldChecker
     [Field (ustr ''type'') (Instance (PyUnicode [])) [],
      Field (ustr ''id'') (Instance (PyUnicode [])) [],
      Field (ustr ''name'') (Instance (PyUnicode [])) [],
      Field (ustr ''artist'') (Checker (DictFieldChecker
        [Field (ustr ''id'') (Instance (PyUnicode [])) [],
         Field (ustr ''name'') (Instance (PyUnicode [])) []] [] [])) []]
     [Field (ustr ''extras'') (Checker (DictTypeChecker (Instance (PyUnicode [])) (Instance PyObject))) [],
      Field (ustr ''takedown'') (Instance (PyBool False)) [],
      Field (ustr ''regions'') (Checker (ListTypeChecker (Instance (PyUnicode []))))
        [ustr ''regions_add'', ustr ''regions_delete''],
      Field (ustr ''regions_add'') (Checker (ListTypeChecker (Instance (PyUnicode []))))
        [ustr ''regions''],
      Field (ustr ''regions_delete'') (Checker (ListTypeChecker (Instance (PyUnicode []))))
        [ustr ''regions''],
      Field (ustr ''ISRC'') (Instance (PyUnicode [])) [],
      Field (ustr ''release_year'') (Instance (PyInt 0)) [],
      Field (ustr ''audio_url'') (Instance (PyUnicode [])) [],
      Field (ustr ''release'') (Checker (DictFieldChecker
        [Field (ustr ''id'') (Instance (PyUnicode [])) [],
         Field (ustr ''name'') (Instance (PyUnicode [])) []]
        [Field (ustr ''release_year'') (Instance (PyInt 0)) []] [])) []]
     [Field (ustr ''published'') (Instance (PyBool False)) []]"

definition artist_fields :: checker where
  "artist_fields = DictFieldChecker
     [Field (ustr ''id'') (Instance (PyUnicode [])) [],
      Field (ustr ''name'') (Instance (PyUnicode [])) []]
     [Field (ustr ''extras'') (Checker (DictTypeChecker (Instance (PyUnicode [])) (Instance PyObject))) [],
      Field (ustr ''regions'') (Checker (ListTypeChecker (Instance (PyUnicode []))))
        [ustr ''regions_add'', ustr ''regions_delete''],
      Field (ustr ''regions_add'') (Checker (ListTypeChecker (Instance (PyUnicode []))))
        [ustr ''regions''],
      Field (ustr ''regions_delete'') (Checker (ListTypeChecker (Instance (PyUnicode []))))
        [ustr ''regions''],
      Field (ustr ''takedown'') (Instance (PyBool False)) []]
     [Field (ustr ''published'') (Instance (PyBool False)) []]"

text \<open>One line of a track file, and the value that \<^verbatim>\<open>json.loads\<close> makes of it.\<close>

definition track_line :: unicode where
  "track_line = ustr ''{\"type\":\"track\",\"id\":\"T1\",\"name\":\"Song\",\"artist\":{\"id\":\"A1\",\"name\":\"Artist\"}}''"

definition track_record :: pyval where
  "track_record = PyDict
     [(ustr ''type'', PyUnicode (ustr ''track'')), (ustr ''id'', PyUnicode (ustr ''T1'')),
      (ustr ''name'', PyUnicode (ustr ''Song'')),
      (ustr ''artist'', PyDict [(ustr ''id'', PyUnicode (ustr ''A1'')),
                                (ustr ''name'', PyUnicode (ustr ''Artist''))])]"

text \<open>A track record with both \<open>regions\<close> and \<open>regions_add\<close>.\<close>

definition regions_record :: "(unicode \<times> pyval) list" where
  "regions_record =
     [(ustr ''type'', PyUnicode (ustr ''track'')), (ustr ''id'', PyUnicode (ustr ''T1'')),
      (ustr ''name'', PyUnicode (ustr ''Song'')),
      (ustr ''artist'', PyDict [(ustr ''id'', PyUnicode (ustr ''A1'')),
                                (ustr ''name'', PyUnicode (ustr ''Artist''))]),
      (ustr ''regions'', PyList [PyUnicode (ustr ''US'')]),
      (ustr ''regions_add'', PyList [PyUnicode (ustr ''CA'')])]"

text \<open>
  A track record whose \<open>release_year\<close> is the float infinity, which \<^verbatim>\<open>json.loads\<close> makes
  of \<^verbatim>\<open>1e999\<close> and of \<^verbatim>\<open>Infinity\<close>, and its line.
\<close>

definition infinite_year_line :: unicode where
  "infinite_year_line = ustr ''{\"type\":\"track\",\"id\":\"T1\",\"name\":\"Song\",\"artist\":{\"id\":\"A1\",\"name\":\"Artist\"},\"release_year\":1e999}''"

definition infinite_year_record :: pyval where
  "infinite_year_record = PyDict
     [(ustr ''type'', PyUnicode (ustr ''track'')), (ustr ''id'', PyUnicode (ustr ''T1'')),
      (ustr ''name'', PyUnicode (ustr ''Song'')),
      (ustr ''artist'', PyDict [(ustr ''id'', PyUnicode (ustr ''A1'')),
                                (ustr ''name'', PyUnicode (ustr ''Artist''))]),
      (ustr ''release_year'', PyFloat (Infinity True))]"

text \<open>
  An artist record whose \<open>name\<close> is the one character U+00A0, a no-break space, and its
  line.
\<close>

definition blank_name_line :: unicode where
  "blank_name_line = ustr ''{\"id\":\"A1\",\"name\":\"'' @ [0xA0] @ ustr ''\"}''"

definition blank_name_record :: pyval where
  "blank_name_record = PyDict
     [(ustr ''id'', PyUnicode (ustr ''A1'')), (ustr ''name'', PyUnicode [0xA0])]"

section \<open>Evaluating the model\<close>

lemmas eval_defs =
  ustr_def isinstance_def optional_dict_def dict_pop_def py_strip_def py_isspace_def
  StringListChecker_validate_def type_error_def py_int_text_def is_digit_def
  c_isspace_def to_decimal_def decimal_zeros_def print_raises_def
  JSON_UNICODE_PROBLEMS_def safe_file_reader_def validateFile_def

lemma isinstance_topLevelType:
  "isinstance candidate (topLevelType c) \<longleftrightarrow> type_of candidate = topLevelType c"
  by (cases c) (auto simp: isinstance_def)

section \<open>The first check of \<^verbatim>\<open>validate\<close>\<close>

text \<open>
  Claim C7. For every checker and every candidate whose type is not the checker's
  \<^verbatim>\<open>topLevelType()\<close>, \<^verbatim>\<open>validate\<close> returns one error, which names the expected and the
  actual type, and no warning. The result is this pair whatever is inside the candidate
  and the checker: \<^verbatim>\<open>_validate\<close> is not entered.
\<close>

theorem validate_wrong_top_level_type:
  "type_of candidate \<noteq> topLevelType c \<Longrightarrow>
   validate c candidate required =
     Inr ([Expected_type (type_name (topLevelType c)) (type_name (type_of candidate))], [])"
  by (simp add: isinstance_topLevelType)

theorem validate_wrong_top_level_type_witness:
  "type_of (PyList [PyDict []]) \<noteq> topLevelType track_fields \<and>
   validate track_fields (PyList [PyDict []]) True = Inr ([Expected_type ''dict'' ''list''], [])"
  using validate_wrong_top_level_type [of "PyList [PyDict []]" track_fields True]
  by (simp add: track_fields_def)

section \<open>The driver on an empty input\<close>

text \<open>
  Claim C10. When the reader yields no line and returns, \<^verbatim>\<open>_validateFile\<close> returns no
  error, no warning, the line count 1 and \<open>stoppedEarly = False\<close>: \<open>lineCount\<close> is still 0
  after the loop, and the count returned is \<open>lineCount + 1\<close>.
\<close>

theorem validateFile_empty_input:
  "safe_file_reader input_file = ([], Returned) \<Longrightarrow>
   validateFile stdout loads input_file ingestion_fields max_errors = Inr ([], [], 1, False)"
  by (simp add: validateFile_def)

theorem validateFile_empty_input_witness:
  "safe_file_reader ([], StopIteration) = ([], Returned) \<and>
   validateFile (\<lambda>c. c < 128) (\<lambda>l. Inl ''No JSON object could be decoded'')
     ([], StopIteration) artist_fields 1000 = Inr ([], [], 1, False)"
  using validateFile_empty_input
    [of "([], StopIteration)" "\<lambda>c. c < 128" "\<lambda>l. Inl ''No JSON object could be decoded''"
      artist_fields 1000]
  by (simp add: safe_file_reader_def)

section \<open>Type checks of a field with an example instance\<close>

text \<open>
  Claim C1, as stated: a float candidate in an integer field gets a type-mismatch error
  directly. It does not: the candidate is not an \<^verbatim>\<open>int\<close>, so \<^verbatim>\<open>int(1.5)\<close> is tried, and
  it succeeds.
\<close>

theorem int_field_accepts_float:
  "\<not> isinstance (PyFloat (Finite (3 / 2))) (type_of (PyInt 0)) \<and>
   DictFieldChecker_check_field (ustr ''release_year'') (PyFloat (Finite (3 / 2)))
     (Field (ustr ''release_year'') (Instance (PyInt 0)) []) [ustr ''release_year'']
     ([], []) False = Inr ([], [])"
  by (simp add: isinstance_def)

text \<open>
  What \<^verbatim>\<open>int()\<close> raises: on a unicode string a \<^verbatim>\<open>ValueError\<close>, or its subclass
  \<^verbatim>\<open>UnicodeEncodeError\<close>; \<^verbatim>\<open>OverflowError\<close> on an infinite float and on nothing else; a
  \<^verbatim>\<open>TypeError\<close> or \<^verbatim>\<open>ValueError\<close> otherwise.
\<close>

lemma py_int_text_raises:
  "py_int_text s = Inl x \<Longrightarrow> x = ValueError \<or> x = UnicodeEncodeError"
  by (auto simp: py_int_text_def Let_def split: option.splits if_splits)

lemma py_int_raises:
  assumes "py_int cand = Inl x"
  shows "except_TypeError_ValueError x \<or> x = OverflowError"
    and "x = OverflowError \<longleftrightarrow> (\<exists>b. cand = PyFloat (Infinity b))"
  using assms by (cases cand rule: py_int.cases; auto dest: py_int_text_raises)+

text \<open>
  Claim C1, amended. In \<^verbatim>\<open>DictFieldChecker._check_field\<close> with an example instance as
  the expected value: when the candidate is not an instance of the expected type and that
  type is not \<^verbatim>\<open>int\<close>, one type error is added directly. When the expected type is
  \<^verbatim>\<open>int\<close>, the candidate, of whatever kind, is given to \<^verbatim>\<open>int()\<close>: the type error is
  added when \<^verbatim>\<open>int()\<close> raises an exception that \<^verbatim>\<open>except (TypeError, ValueError)\<close>
  catches, nothing is added when it converts, and any other exception leaves
  \<^verbatim>\<open>_check_field\<close>. That other exception is the \<^verbatim>\<open>OverflowError\<close> of an infinite float, and
  there is no further case. A candidate that is an instance of the expected type gets no
  type error. Where \<^verbatim>\<open>_check_field\<close> returns, the warning for a blank required entry and
  the errors for the disallowed fields follow.
\<close>

theorem check_field_instance:
  assumes "expectedValue vf = Instance ev"
  shows
   "(\<not> isinstance cand (type_of ev) \<and> type_of ev \<noteq> T_int \<longrightarrow>
       DictFieldChecker_check_field fn cand vf cfs (errors, warnings) required =
         Inr (check_disallowed (name vf) (disallowedFields vf) cfs
                (errors @ [type_error fn ev cand]),
              if required \<and> \<not> valid_entry cand then warnings @ [Was_required fn cand]
              else warnings)) \<and>
    (\<not> isinstance cand (type_of ev) \<and> type_of ev = T_int \<and>
     py_int cand = Inl x \<and> except_TypeError_ValueError x \<longrightarrow>
       DictFieldChecker_check_field fn cand vf cfs (errors, warnings) required =
         Inr (check_disallowed (name vf) (disallowedFields vf) cfs
                (errors @ [type_error fn (PyInt 0) cand]),
              if required \<and> \<not> valid_entry cand then warnings @ [Was_required fn cand]
              else warnings)) \<and>
    (\<not> isinstance cand (type_of ev) \<and> type_of ev = T_int \<and> py_int cand = Inr i \<longrightarrow>
       DictFieldChecker_check_field fn cand vf cfs (errors, warnings) required =
         Inr (check_disallowed (name vf) (disallowedFields vf) cfs errors,
              if required \<and> \<not> valid_entry cand then warnings @ [Was_required fn cand]
              else warnings)) \<and>
    (\<not> isinstance cand (type_of ev) \<and> type_of ev = T_int \<and>
     py_int cand = Inl x \<and> \<not> except_TypeError_ValueError x \<longrightarrow>
       DictFieldChecker_check_field fn cand vf cfs (errors, warnings) required = Inl x) \<and>
    (isinstance cand (type_of ev) \<longrightarrow>
       DictFieldChecker_check_field fn cand vf cfs (errors, warnings) required =
         Inr (check_disallowed (name vf) (disallowedFields vf) cfs errors,
              if required \<and> \<not> valid_entry cand then warnings @ [Was_required fn cand]
              else warnings)) \<and>
    (py_int cand = Inl x \<longrightarrow>
       (except_TypeError_ValueError x \<or> x = OverflowError) \<and>
       (x = OverflowError \<longleftrightarrow> (\<exists>b. cand = PyFloat (Infinity b))))"
proof -
  have "py_int cand = Inl x \<longrightarrow>
       (except_TypeError_ValueError x \<or> x = OverflowError) \<and>
       (x = OverflowError \<longleftrightarrow> (\<exists>b. cand = PyFloat (Infinity b)))"
    using py_int_raises [of cand x] by blast
  moreover have "\<not> isinstance cand (type_of ev) \<and> type_of ev = T_int \<and>
     py_int cand = Inl x \<and> \<not> except_TypeError_ValueError x \<longrightarrow>
       DictFieldChecker_check_field fn cand vf cfs (errors, warnings) required = Inl x"
    using assms by simp
  moreover have "\<not> isinstance cand (type_of ev) \<and> type_of ev = T_int \<and>
     py_int cand = Inl x \<and> except_TypeError_ValueError x \<longrightarrow>
       DictFieldChecker_check_field fn cand vf cfs (errors, warnings) required =
         Inr (check_disallowed (name vf) (disallowedFields vf) cfs
                (errors @ [type_error fn (PyInt 0) cand]),
              if required \<and> \<not> valid_entry cand then warnings @ [Was_required fn cand]
              else warnings)"
    using assms by auto
  ultimately show ?thesis
    using assms by auto
qed

theorem check_field_instance_witness:
  "DictFieldChecker_check_field (ustr ''release_year'') (PyUnicode (ustr ''42''))
     (Field (ustr ''release_year'') (Instance (PyInt 0)) []) [] ([], []) False = Inr ([], []) \<and>
   py_int (PyUnicode [0x661, 0x669, 0x668, 0x664]) = Inr 1984 \<and>
   DictFieldChecker_check_field (ustr ''release_year'') (PyUnicode [0x661, 0x669, 0x668, 0x664])
     (Field (ustr ''release_year'') (Instance (PyInt 0)) []) [] ([], []) False = Inr ([], []) \<and>
   DictFieldChecker_check_field (ustr ''release_year'') (PyUnicode (ustr ''abc''))
     (Field (ustr ''release_year'') (Instance (PyInt 0)) []) [] ([], []) False =
     Inr ([Field_had_incorrect_type (ustr ''release_year'') ''int'' ''unicode''], []) \<and>
   py_int (PyUnicode [0x4E2D]) = Inl UnicodeEncodeError \<and>
   DictFieldChecker_check_field (ustr ''release_year'') (PyUnicode [0x4E2D])
     (Field (ustr ''release_year'') (Instance (PyInt 0)) []) [] ([], []) False =
     Inr ([Field_had_incorrect_type (ustr ''release_year'') ''int'' ''unicode''], []) \<and>
   DictFieldChecker_check_field (ustr ''release_year'') (PyList [])
     (Field (ustr ''release_year'') (Instance (PyInt 0)) []) [] ([], []) False =
     Inr ([Field_had_incorrect_type (ustr ''release_year'') ''int'' ''list''], []) \<and>
   py_int (PyFloat (Infinity True)) = Inl OverflowError \<and>
   DictFieldChecker_check_field (ustr ''release_year'') (PyFloat (Infinity True))
     (Field (ustr ''release_year'') (Instance (PyInt 0)) []) [] ([], []) False =
     Inl OverflowError \<and>
   DictFieldChecker_check_field (ustr ''release_year'') (PyBool True)
     (Field (ustr ''release_year'') (Instance (PyInt 0)) []) [] ([], []) False = Inr ([], []) \<and>
   DictFieldChecker_check_field (ustr ''takedown'') (PyInt 1)
     (Field (ustr ''takedown'') (Instance (PyBool False)) []) [] ([], []) False =
     Inr ([Field_had_incorrect_type (ustr ''takedown'') ''bool'' ''int''], [])"
proof -
  let ?year = "Field (ustr ''release_year'') (Instance (PyInt 0)) []"
  let ?takedown = "Field (ustr ''takedown'') (Instance (PyBool False)) []"
  have year: "expectedValue ?year = Instance (PyInt 0)"
    and takedown: "expectedValue ?takedown = Instance (PyBool False)"
    by simp_all
  have parsed: "py_int (PyUnicode (ustr ''42'')) = Inr 42"
    and failed: "py_int (PyUnicode (ustr ''abc'')) = Inl ValueError"
    by (simp_all add: eval_defs)
  have arabic: "py_int (PyUnicode [0x661, 0x669, 0x668, 0x664]) = Inr 1984"
    by (simp add: eval_defs)
  have han: "py_int (PyUnicode [0x4E2D]) = Inl UnicodeEncodeError"
    by (simp add: eval_defs)
  have not_a_number: "py_int (PyList []) = Inl TypeError"
    and infinite: "py_int (PyFloat (Infinity True)) = Inl OverflowError"
    by simp_all
  show ?thesis
    using check_field_instance [OF year, of "PyUnicode (ustr ''42'')" "ustr ''release_year''"
        "[]" "[]" "[]" False ValueError 42]
      check_field_instance [OF year, of "PyUnicode [0x661, 0x669, 0x668, 0x664]"
        "ustr ''release_year''" "[]" "[]" "[]" False ValueError 1984]
      check_field_instance [OF year, of "PyUnicode (ustr ''abc'')" "ustr ''release_year''"
        "[]" "[]" "[]" False ValueError 0]
      check_field_instance [OF year, of "PyUnicode [0x4E2D]" "ustr ''release_year''"
        "[]" "[]" "[]" False UnicodeEncodeError 0]
      check_field_instance [OF year, of "PyList []" "ustr ''release_year''" "[]" "[]" "[]" False
        TypeError 0]
      check_field_instance [OF year, of "PyFloat (Infinity True)" "ustr ''release_year''"
        "[]" "[]" "[]" False OverflowError 0]
      check_field_instance [OF year, of "PyBool True" "ustr ''release_year''" "[]" "[]" "[]" False
        ValueError 0]
      check_field_instance [OF takedown, of "PyInt 1" "ustr ''takedown''" "[]" "[]" "[]" False
        ValueError 0]
      parsed arabic failed han not_a_number infinite
    by (simp add: isinstance_def type_error_def del: DictFieldChecker_check_field.simps py_int.simps)
qed

section \<open>Integer coercion in lists, dicts and fields\<close>

text \<open>
  Claim C6. A list \<^verbatim>\<open>["1"]\<close> checked by a \<^verbatim>\<open>ListTypeChecker\<close> of \<^verbatim>\<open>int()\<close> gets a type
  error, as every unicode element does: the list checker does not try \<^verbatim>\<open>int()\<close>. A unicode
  value that \<^verbatim>\<open>int()\<close> reads gets no error as a value of a \<^verbatim>\<open>DictTypeChecker\<close> with
  \<^verbatim>\<open>int()\<close> values, and none as a field of a \<^verbatim>\<open>DictFieldChecker\<close> with expected value
  \<^verbatim>\<open>int()\<close>, whatever the flag \<open>required\<close>.
\<close>

theorem list_elements_are_not_coerced:
  "validate (ListTypeChecker (Instance (PyInt 0))) (PyList [PyUnicode s]) required =
     Inr ([Element_had_incorrect_type 0 ''int'' ''unicode''], []) \<and>
   (py_int_text s = Inr i \<longrightarrow>
      (\<exists>ws. validate (DictTypeChecker (Instance (PyUnicode [])) (Instance (PyInt 0)))
         (PyDict [(k, PyUnicode s)]) required = Inr ([], ws)) \<and>
      validate (DictFieldChecker [] [Field n (Instance (PyInt 0)) []] [])
        (PyDict [(n, PyUnicode s)]) required = Inr ([], []))"
  by (simp add: isinstance_def optional_dict_def)

theorem list_elements_are_not_coerced_witness:
  "py_int_text (ustr ''1'') = Inr 1 \<and>
   validate (ListTypeChecker (Instance (PyInt 0))) (PyList [PyUnicode (ustr ''1'')]) False =
     Inr ([Element_had_incorrect_type 0 ''int'' ''unicode''], []) \<and>
   validate (DictTypeChecker (Instance (PyUnicode [])) (Instance (PyInt 0)))
     (PyDict [(ustr ''k'', PyUnicode (ustr ''1''))]) False = Inr ([], []) \<and>
   validate (DictFieldChecker [] [Field (ustr ''release_year'') (Instance (PyInt 0)) []] [])
     (PyDict [(ustr ''release_year'', PyUnicode (ustr ''1''))]) False = Inr ([], [])"
proof -
  have p: "py_int_text (ustr ''1'') = Inr 1"
    by (simp add: eval_defs)
  have d: "validate (DictTypeChecker (Instance (PyUnicode [])) (Instance (PyInt 0)))
      (PyDict [(ustr ''k'', PyUnicode (ustr ''1''))]) False = Inr ([], [])"
    by (simp add: eval_defs)
  from list_elements_are_not_coerced
    [of "ustr ''1''" False 1 "ustr ''k''" "ustr ''release_year''"] p d
  show ?thesis by (simp del: validate.simps)
qed

section \<open>The field checks of \<^verbatim>\<open>DictFieldChecker\<close>, one after another\<close>

declare validate.simps [simp del]

lemma check_disallowed_eq:
  "check_disallowed n ds cfs errors =
     errors @ map (Fields_not_allowed n) (filter (\<lambda>u. u \<in> set cfs) ds)"
  by (induction ds arbitrary: errors) auto


lemma count_list_not_allowed:
  "count_list (map (Fields_not_allowed n) us) (Fields_not_allowed a b) =
     (if n = a then count_list us b else 0)"
  by (induction us) auto

lemma count_list_filter: "count_list (filter P us) b = (if P b then count_list us b else 0)"
  by (induction us) auto

lemma count_list_in_field [simp]:
  "count_list (map (Found_error_in_field fn) errs) (Fields_not_allowed a b) = 0"
  by (induction errs) auto

lemma check_field_count:
  "DictFieldChecker_check_field fn cand vf cfs (E, W) req = Inr (E', W') \<Longrightarrow>
   count_list E' (Fields_not_allowed a b) =
     count_list E (Fields_not_allowed a b) +
     (if name vf = a \<and> b \<in> set cfs then count_list (disallowedFields vf) b else 0)"
  by (auto simp: check_disallowed_eq type_error_def count_list_not_allowed count_list_filter
      split: expected.splits sum.splits prod.splits if_splits)

declare DictFieldChecker_check_field.simps [simp del]




lemma map_of_dict_pop: "map_of (dict_pop k d) k' = (if k' = k then None else map_of d k')"
  by (induction d) (auto simp: dict_pop_def)

lemma required_candidate:
  "DictFieldChecker_required fs cand cfs st = Inr (c, st') \<Longrightarrow>
   c = filter (\<lambda>kv. fst kv \<notin> name ` set fs) cand"
proof (induction fs arbitrary: cand st)
  case Nil
  then show ?case by simp
next
  case (Cons f fs)
  obtain E W where st: "st = (E, W)" by (cases st)
  show ?case
  proof (cases "map_of cand (name f)")
    case None
    then have "name f \<notin> fst ` set cand" by (simp add: map_of_eq_None_iff)
    then have "filter (\<lambda>kv. fst kv \<notin> name ` set (f # fs)) cand =
        filter (\<lambda>kv. fst kv \<notin> name ` set fs) cand"
      by (intro filter_cong) force+
    with Cons.IH [of cand "(E @ [Did_not_find_required_field (name f)], W)"] Cons.prems None st
    show ?thesis by simp
  next
    case (Some v)
    with Cons.prems st obtain st1 where
      "DictFieldChecker_required fs (dict_pop (name f) cand) cfs st1 = Inr (c, st')"
      by (auto split: sum.splits)
    from Cons.IH [OF this] show ?thesis
      by (auto simp: dict_pop_def intro: filter_cong)
  qed
qed

lemma validate_DictFieldChecker:
  "validate (DictFieldChecker req opt hist) (PyDict kvs) required =
     (case DictFieldChecker_required req kvs (map fst kvs) ([], []) of
        Inl x \<Rightarrow> Inl x
      | Inr (candidate, st) \<Rightarrow> DictFieldChecker_remaining (hist @ opt) candidate (map fst kvs) st)"
  by (simp add: validate.simps isinstance_def)

lemma optional_dict_name: "optional_dict fs k = Some vf \<Longrightarrow> name vf = k"
  unfolding optional_dict_def by (auto dest!: map_of_SomeD)





section \<open>The warnings of \<^verbatim>\<open>validate\<close>\<close>

text \<open>
  Every warning is made by one of the two \<^verbatim>\<open>_check_field\<close> methods, for a candidate that
  is not a \<^verbatim>\<open>valid_entry\<close>: a unicode string that is empty after \<^verbatim>\<open>strip()\<close>. The checkers
  pass the warnings of nested checkers on as they are.
\<close>

lemma blank_warning_entry: "\<not> valid_entry cand \<Longrightarrow> blank_warning (Was_required fn cand)"
  by (cases cand) simp_all

lemma check_field_warnings:
  assumes nested: "\<And>c E W. expectedValue vf = Checker c \<Longrightarrow> validate c cf r = Inr (E, W) \<Longrightarrow>
             list_all blank_warning W"
    and given: "list_all blank_warning warnings"
    and result: "DictFieldChecker_check_field fn cf vf cfs (errors, warnings) r = Inr (E, W)"
  shows "list_all blank_warning W"
proof (cases "expectedValue vf")
  case (Instance ev)
  with result have "W = (if r \<and> \<not> valid_entry cf then warnings @ [Was_required fn cf] else warnings)"
    by (auto simp: DictFieldChecker_check_field.simps split: if_splits sum.splits)
  with given show ?thesis
    by (simp add: blank_warning_entry)
next
  case (Checker c)
  show ?thesis
  proof (cases "validate c cf r")
    case (Inl x)
    with Checker result show ?thesis
      by (simp add: DictFieldChecker_check_field.simps)
  next
    case (Inr p)
    obtain errs warns where p: "p = (errs, warns)" by (cases p)
    from nested [OF Checker Inr [unfolded p]] have "list_all blank_warning warns" .
    moreover from Checker Inr p result
    have "W = (if r \<and> \<not> valid_entry cf then (warnings @ warns) @ [Was_required fn cf]
               else warnings @ warns)"
      by (simp add: DictFieldChecker_check_field.simps split: if_splits)
    ultimately show ?thesis
      using given by (simp add: blank_warning_entry)
  qed
qed

lemma required_warnings:
  assumes nested: "\<And>f c cand r E W. f \<in> set fs \<Longrightarrow> expectedValue f = Checker c \<Longrightarrow>
             validate c cand r = Inr (E, W) \<Longrightarrow> list_all blank_warning W"
    and given: "list_all blank_warning (snd st)"
    and result: "DictFieldChecker_required fs cand cfs st = Inr (cand', st')"
  shows "list_all blank_warning (snd st')"
  using assms
proof (induction fs arbitrary: cand st)
  case Nil
  then show ?case by simp
next
  case (Cons f fs)
  obtain errors warnings where st: "st = (errors, warnings)" by (cases st)
  have nested': "list_all blank_warning W"
    if "f' \<in> set fs" "expectedValue f' = Checker c" "validate c cand r = Inr (E, W)"
    for f' c cand r E W
    using Cons.prems(1) [of f' c cand r E W] that by simp
  show ?case
  proof (cases "map_of cand (name f)")
    case None
    with Cons.prems(3) st
    have a: "DictFieldChecker_required fs cand cfs
            (errors @ [Did_not_find_required_field (name f)], warnings) = Inr (cand', st')"
      by simp
    have b: "list_all blank_warning
        (snd (errors @ [Did_not_find_required_field (name f)], warnings))"
      using Cons.prems(2) st by simp
    from Cons.IH [OF nested' b a] show ?thesis .
  next
    case (Some v)
    show ?thesis
    proof (cases "DictFieldChecker_check_field (name f) v f cfs (errors, warnings) True")
      case (Inl x)
      with Some Cons.prems(3) st show ?thesis by simp
    next
      case (Inr st1)
      obtain E1 W1 where st1: "st1 = (E1, W1)" by (cases st1)
      have "list_all blank_warning W1"
      proof (rule check_field_warnings [OF _ _ Inr [unfolded st1]])
        show "list_all blank_warning warnings" using Cons.prems(2) st by simp
      next
        fix c E W
        assume "expectedValue f = Checker c" "validate c v True = Inr (E, W)"
        then show "list_all blank_warning W"
          using Cons.prems(1) [of f c v True E W] by simp
      qed
      then have b: "list_all blank_warning (snd st1)" using st1 by simp
      from Some Inr Cons.prems(3) st
      have a: "DictFieldChecker_required fs (dict_pop (name f) cand) cfs st1 = Inr (cand', st')"
        by simp
      from Cons.IH [OF nested' b a] show ?thesis .
    qed
  qed
qed

lemma optional_dict_member: "optional_dict fs k = Some vf \<Longrightarrow> vf \<in> set fs"
proof -
  assume "optional_dict fs k = Some vf"
  then have "(k, vf) \<in> set (rev (map (\<lambda>x. (name x, x)) fs))"
    unfolding optional_dict_def by (rule map_of_SomeD)
  then show ?thesis by auto
qed

lemma remaining_warnings:
  assumes nested: "\<And>f c cand r E W. f \<in> set fs \<Longrightarrow> expectedValue f = Checker c \<Longrightarrow>
             validate c cand r = Inr (E, W) \<Longrightarrow> list_all blank_warning W"
    and given: "list_all blank_warning (snd st)"
    and result: "DictFieldChecker_remaining fs items cfs st = Inr st'"
  shows "list_all blank_warning (snd st')"
  using given result
proof (induction items arbitrary: st)
  case Nil
  then show ?case by simp
next
  case (Cons kv items)
  obtain errors warnings where st: "st = (errors, warnings)" by (cases st)
  obtain k v where kv: "kv = (k, v)" by (cases kv)
  show ?case
  proof (cases "optional_dict fs k")
    case None
    with Cons.prems(2) st kv
    have a: "DictFieldChecker_remaining fs items cfs (errors @ [Unexpected_field k], warnings) =
            Inr st'"
      by simp
    have b: "list_all blank_warning (snd (errors @ [Unexpected_field k], warnings))"
      using Cons.prems(1) st by simp
    from Cons.IH [OF b a] show ?thesis .
  next
    case (Some vf)
    then have member: "vf \<in> set fs" by (rule optional_dict_member)
    show ?thesis
    proof (cases "DictFieldChecker_check_field k v vf cfs (errors, warnings) False")
      case (Inl x)
      with Some Cons.prems(2) st kv show ?thesis by simp
    next
      case (Inr st1)
      obtain E1 W1 where st1: "st1 = (E1, W1)" by (cases st1)
      have "list_all blank_warning W1"
      proof (rule check_field_warnings [OF _ _ Inr [unfolded st1]])
        show "list_all blank_warning warnings" using Cons.prems(1) st by simp
      next
        fix c E W
        assume "expectedValue vf = Checker c" "validate c v False = Inr (E, W)"
        then show "list_all blank_warning W"
          using nested [of vf c v False E W] member by simp
      qed
      then have b: "list_all blank_warning (snd st1)" using st1 by simp
      from Some Inr Cons.prems(2) st kv
      have a: "DictFieldChecker_remaining fs items cfs st1 = Inr st'"
        by simp
      from Cons.IH [OF b a] show ?thesis .
    qed
  qed
qed

lemma DictTypeChecker_check_field_warnings:
  assumes "list_all blank_warning (snd st)"
    and "DictTypeChecker_check_field fn cf ev st r = Inr st'"
  shows "list_all blank_warning (snd st')"
proof -
  obtain errors warnings where st: "st = (errors, warnings)" by (cases st)
  from assms(2) have "snd st' = (if r \<and> \<not> valid_entry cf then warnings @ [Was_required fn cf]
                                  else warnings)"
    unfolding st by (auto split: expected.splits sum.splits if_splits)
  with assms(1) st show ?thesis
    by (simp add: blank_warning_entry)
qed

lemma DictTypeChecker_items_warnings:
  assumes "list_all blank_warning (snd st)"
    and "DictTypeChecker_items k v kvs st r = Inr st'"
  shows "list_all blank_warning (snd st')"
  using assms
proof (induction kvs arbitrary: st)
  case Nil
  then show ?case by simp
next
  case (Cons kv kvs)
  obtain key val where kv: "kv = (key, val)" by (cases kv)
  from Cons.prems(2) obtain st1 st2 where
    a: "DictTypeChecker_check_field (ustr ''key'') (PyUnicode key) k st r = Inr st1" and
    b: "DictTypeChecker_check_field (ustr ''value'') val v st1 r = Inr st2" and
    c: "DictTypeChecker_items k v kvs st2 r = Inr st'"
    unfolding kv by (auto split: sum.splits)
  from Cons.prems(1) a have "list_all blank_warning (snd st1)"
    by (rule DictTypeChecker_check_field_warnings)
  from this b have "list_all blank_warning (snd st2)"
    by (rule DictTypeChecker_check_field_warnings)
  from this c show ?case
    by (rule Cons.IH)
qed

lemma ListTypeChecker_elements_warnings:
  assumes nested: "\<And>c elem E W. e = Checker c \<Longrightarrow> validate c elem r = Inr (E, W) \<Longrightarrow>
             list_all blank_warning W"
    and given: "list_all blank_warning (snd st)"
    and result: "ListTypeChecker_elements e pos xs st r = Inr st'"
  shows "list_all blank_warning (snd st')"
  using given result
proof (induction xs arbitrary: pos st)
  case Nil
  then show ?case by simp
next
  case (Cons elem xs)
  obtain errors warnings where st: "st = (errors, warnings)" by (cases st)
  show ?case
  proof (cases e)
    case (Instance ev)
    with Cons.prems(2) st obtain errors' where
      a: "ListTypeChecker_elements e (Suc pos) xs (errors', warnings) r = Inr st'"
      by simp
    have b: "list_all blank_warning (snd (errors', warnings))"
      using Cons.prems(1) st by simp
    from Cons.IH [OF b a] show ?thesis .
  next
    case (Checker c)
    show ?thesis
    proof (cases "validate c elem r")
      case (Inl x)
      with Checker Cons.prems(2) st show ?thesis by simp
    next
      case (Inr p)
      obtain errs warns where p: "p = (errs, warns)" by (cases p)
      from nested [OF Checker Inr [unfolded p]] have "list_all blank_warning warns" .
      then have b: "list_all blank_warning
          (snd (errors @ map (Found_error_in_element pos) errs, warnings @ warns))"
        using Cons.prems(1) st by simp
      from Checker Inr p Cons.prems(2) st
      have a: "ListTypeChecker_elements e (Suc pos) xs
              (errors @ map (Found_error_in_element pos) errs, warnings @ warns) r = Inr st'"
        by simp
      from Cons.IH [OF b a] show ?thesis .
    qed
  qed
qed

lemma field_checker_size:
  "f \<in> set fs \<Longrightarrow> expectedValue f = Checker c \<Longrightarrow> size c < size_list size fs"
proof -
  assume "f \<in> set fs" and e: "expectedValue f = Checker c"
  then have "size f \<le> size_list size fs"
    by (induction fs) auto
  with expectedValue_size [OF e] show ?thesis by simp
qed

lemma validate_warnings:
  "validate c candidate required = Inr (E, W) \<Longrightarrow> list_all blank_warning W"
proof (induction c arbitrary: candidate required E W rule: measure_induct_rule [of size])
  case (less c)
  show ?case
  proof (cases "isinstance candidate (topLevelType c)")
    case False
    with less.prems show ?thesis
      by (simp add: validate.simps)
  next
    case True
    show ?thesis
    proof (cases c)
      case (DictFieldChecker req opt hist)
      with True obtain kvs where kvs: "candidate = PyDict kvs"
        by (cases candidate) (simp_all add: isinstance_def)
      have nested: "validate c' cand r = Inr (E', W') \<Longrightarrow> list_all blank_warning W'"
        if "f \<in> set (req @ hist @ opt)" "expectedValue f = Checker c'" for f c' cand r E' W'
      proof (rule less.IH)
        from that have "size c' < size_list size (req @ hist @ opt)"
          by (rule field_checker_size)
        then show "size c' < size c"
          using DictFieldChecker by simp
      qed
      from less.prems True DictFieldChecker kvs obtain cand' st where
        r: "DictFieldChecker_required req kvs (map fst kvs) ([], []) = Inr (cand', st)" and
        m: "DictFieldChecker_remaining (hist @ opt) cand' (map fst kvs) st = Inr (E, W)"
        by (auto simp: validate.simps split: sum.splits)
      have g: "list_all blank_warning (snd st)"
      proof (rule required_warnings [OF _ _ r])
        show "list_all blank_warning (snd ([], []))" by simp
      next
        fix f c' cand r E' W'
        assume "f \<in> set req" "expectedValue f = Checker c'" "validate c' cand r = Inr (E', W')"
        then show "list_all blank_warning W'"
          using nested [of f c' cand r E' W'] by simp
      qed
      have "list_all blank_warning (snd (E, W))"
      proof (rule remaining_warnings [OF _ g m])
        fix f c' cand r E' W'
        assume "f \<in> set (hist @ opt)" "expectedValue f = Checker c'"
          "validate c' cand r = Inr (E', W')"
        then show "list_all blank_warning W'"
          using nested [of f c' cand r E' W'] by simp
      qed
      then show ?thesis by simp
    next
      case (DictTypeChecker k v)
      with True obtain kvs where kvs: "candidate = PyDict kvs"
        by (cases candidate) (simp_all add: isinstance_def)
      from less.prems True DictTypeChecker kvs
      have "DictTypeChecker_items k v kvs ([], []) required = Inr (E, W)"
        by (simp add: validate.simps)
      with DictTypeChecker_items_warnings [of "([], [])" k v kvs required "(E, W)"]
      show ?thesis by simp
    next
      case (StringListChecker fs)
      with less.prems True show ?thesis
        by (auto simp: validate.simps StringListChecker_validate_def split: pyval.splits)
    next
      case (ListTypeChecker e)
      with True obtain xs where xs: "candidate = PyList xs"
        by (cases candidate) (simp_all add: isinstance_def)
      from less.prems True ListTypeChecker xs
      have l: "ListTypeChecker_elements e 0 xs ([], []) required = Inr (E, W)"
        by (simp add: validate.simps)
      have "list_all blank_warning (snd (E, W))"
      proof (rule ListTypeChecker_elements_warnings [OF _ _ l])
        show "list_all blank_warning (snd ([], []))" by simp
      next
        fix c' elem E' W'
        assume e: "e = Checker c'" and v: "validate c' elem required = Inr (E', W')"
        from e ListTypeChecker have "size c' < size c" by simp
        from less.IH [OF this v] show "list_all blank_warning W'" .
      qed
      then show ?thesis by simp
    qed
  qed
qed

section \<open>A missing required field\<close>




section \<open>Fields that are not allowed together\<close>

text \<open>
  Claim C3, as stated: one error for a violated pair. A track record with \<open>regions\<close> and
  \<open>regions_add\<close> gets two errors for this one pair of fields, since each of the two
  fields declares the other in the schema. The order in which the dict gives the two
  items decides only which of the two errors comes first.
\<close>

theorem regions_pair_reported_twice:
  "validate track_fields (PyDict regions_record) True =
     Inr ([Fields_not_allowed (ustr ''regions'') (ustr ''regions_add''),
           Fields_not_allowed (ustr ''regions_add'') (ustr ''regions'')], []) \<and>
   validate track_fields (PyDict (rev regions_record)) True =
     Inr ([Fields_not_allowed (ustr ''regions_add'') (ustr ''regions''),
           Fields_not_allowed (ustr ''regions'') (ustr ''regions_add'')], [])"
  by (simp add: track_fields_def regions_record_def validate.simps
      DictFieldChecker_check_field.simps eval_defs)

lemma required_count:
  "DictFieldChecker_required fs cand cfs (E, W) = Inr (c, E', W') \<Longrightarrow>
   count_list E' (Fields_not_allowed a b) =
     count_list E (Fields_not_allowed a b) +
     (case find (\<lambda>f. name f = a) fs of
        None \<Rightarrow> 0
      | Some f \<Rightarrow>
          if map_of cand a \<noteq> None \<and> b \<in> set cfs then count_list (disallowedFields f) b else 0)"
proof (induction fs arbitrary: cand E W)
  case Nil
  then show ?case by simp
next
  case (Cons f fs)
  show ?case
  proof (cases "map_of cand (name f)")
    case None
    with Cons.prems Cons.IH [of cand "E @ [Did_not_find_required_field (name f)]" W]
    show ?thesis by (auto split: option.splits)
  next
    case (Some v)
    with Cons.prems obtain E1 W1 where
      cf: "DictFieldChecker_check_field (name f) v f cfs (E, W) True = Inr (E1, W1)" and
      rest: "DictFieldChecker_required fs (dict_pop (name f) cand) cfs (E1, W1) = Inr (c, E', W')"
      by (auto split: sum.splits)
    from Cons.IH [OF rest] check_field_count [OF cf, of a b] Some show ?thesis
      by (auto simp: map_of_dict_pop split: option.splits)
  qed
qed

lemma remaining_count:
  "distinct (map fst items) \<Longrightarrow>
   DictFieldChecker_remaining fs items cfs (E, W) = Inr (E', W') \<Longrightarrow>
   count_list E' (Fields_not_allowed a b) =
     count_list E (Fields_not_allowed a b) +
     (if a \<in> fst ` set items \<and> b \<in> set cfs
      then (case optional_dict fs a of None \<Rightarrow> 0 | Some vf \<Rightarrow> count_list (disallowedFields vf) b)
      else 0)"
proof (induction items arbitrary: E W)
  case Nil
  then show ?case by simp
next
  case (Cons kv items)
  obtain k v where kv: "kv = (k, v)" by (cases kv)
  from Cons.prems(1) kv have d: "distinct (map fst items)" and nk: "k \<notin> fst ` set items"
    by auto
  show ?case
  proof (cases "optional_dict fs k")
    case None
    with Cons.prems(2) kv Cons.IH [OF d, of "E @ [Unexpected_field k]" W] nk
    show ?thesis by (auto split: option.splits)
  next
    case (Some vf)
    with Cons.prems(2) kv obtain E1 W1 where
      cf: "DictFieldChecker_check_field k v vf cfs (E, W) False = Inr (E1, W1)" and
      rest: "DictFieldChecker_remaining fs items cfs (E1, W1) = Inr (E', W')"
      by (auto split: sum.splits)
    from Cons.IH [OF d rest] check_field_count [OF cf, of a b] Some optional_dict_name [OF Some] nk kv
    show ?thesis by (auto split: option.splits)
  qed
qed

text \<open>
  Claim C3, amended. When validation of a dict with a \<^verbatim>\<open>DictFieldChecker\<close> returns, the
  number of errors \<^verbatim>\<open>Fields 'a' and 'b' are not allowed ...\<close> is: the number of times
  that \<open>b\<close> stands in the \<open>disallowedFields\<close> of the field that \<open>a\<close> is checked against
  (the first required field named \<open>a\<close>; with none, the optional or historical field named
  \<open>a\<close>), when \<open>a\<close> and \<open>b\<close> are both keys of the original candidate; and 0 otherwise. So
  there is one error for each declaration, and a pair of fields that each declare the
  other is reported twice. \<open>b\<close> counts as present when it is a key of the original
  candidate, also after it has been taken out as a required field.
\<close>

theorem disallowed_fields_count:
  assumes "distinct (map fst kvs)"
    and "validate (DictFieldChecker req opt hist) (PyDict kvs) required = Inr (E, W)"
  shows "count_list E (Fields_not_allowed a b) =
     (if a \<in> fst ` set kvs \<and> b \<in> fst ` set kvs
      then (case find (\<lambda>f. name f = a) req of
              Some f \<Rightarrow> count_list (disallowedFields f) b
            | None \<Rightarrow>
                (case optional_dict (hist @ opt) a of
                   Some f \<Rightarrow> count_list (disallowedFields f) b
                 | None \<Rightarrow> 0))
      else 0)"
proof -
  from assms(2) obtain c E1 W1 where
    r: "DictFieldChecker_required req kvs (map fst kvs) ([], []) = Inr (c, E1, W1)" and
    m: "DictFieldChecker_remaining (hist @ opt) c (map fst kvs) (E1, W1) = Inr (E, W)"
    by (auto simp: validate_DictFieldChecker split: sum.splits)
  have c: "c = filter (\<lambda>kv. fst kv \<notin> name ` set req) kvs"
    by (rule required_candidate [OF r])
  have dc: "distinct (map fst c)"
    unfolding c using assms(1) by (simp add: distinct_map_filter)
  have keys: "a \<in> fst ` set c \<longleftrightarrow> a \<in> fst ` set kvs \<and> a \<notin> name ` set req"
    unfolding c by auto
  have fnd: "find (\<lambda>f. name f = a) req = None \<longleftrightarrow> a \<notin> name ` set req"
    by (auto simp: find_None_iff)
  have dom: "map_of kvs a \<noteq> None \<longleftrightarrow> a \<in> fst ` set kvs"
    by (simp add: map_of_eq_None_iff)
  have fnd_some: "a \<in> name ` set req" if "find (\<lambda>f. name f = a) req = Some f" for f
    using that fnd by auto
  show ?thesis
    using required_count [OF r, of a b] remaining_count [OF dc m, of a b] keys fnd dom
    by (auto split: option.splits dest: fnd_some)
qed

theorem disallowed_fields_count_witness:
  "distinct (map fst regions_record) \<and>
   (\<exists>E. validate track_fields (PyDict regions_record) True = Inr (E, []) \<and>
     count_list E (Fields_not_allowed (ustr ''regions'') (ustr ''regions_add'')) = 1 \<and>
     count_list E (Fields_not_allowed (ustr ''regions_add'') (ustr ''regions'')) = 1 \<and>
     count_list E (Fields_not_allowed (ustr ''regions'') (ustr ''regions_delete'')) = 0) \<and>
   validate (DictFieldChecker [Field (ustr ''id'') (Instance (PyUnicode [])) []]
       [Field (ustr ''alias'') (Instance (PyUnicode [])) [ustr ''id'']] [])
     (PyDict [(ustr ''id'', PyUnicode (ustr ''A1'')), (ustr ''alias'', PyUnicode (ustr ''A''))])
     True = Inr ([Fields_not_allowed (ustr ''alias'') (ustr ''id'')], [])"
proof -
  have d: "distinct (map fst regions_record)"
    by (simp add: regions_record_def ustr_def)
  obtain E where v: "validate track_fields (PyDict regions_record) True = Inr (E, [])"
    by (simp add: track_fields_def regions_record_def validate.simps
        DictFieldChecker_check_field.simps eval_defs)
  note v' = v [unfolded track_fields_def]
  have a: "count_list E (Fields_not_allowed (ustr ''regions'') (ustr ''regions_add'')) = 1"
    using disallowed_fields_count [OF d v', of "ustr ''regions''" "ustr ''regions_add''"]
    by (simp add: regions_record_def optional_dict_def ustr_def)
  have b: "count_list E (Fields_not_allowed (ustr ''regions_add'') (ustr ''regions'')) = 1"
    using disallowed_fields_count [OF d v', of "ustr ''regions_add''" "ustr ''regions''"]
    by (simp add: regions_record_def optional_dict_def ustr_def)
  have c: "count_list E (Fields_not_allowed (ustr ''regions'') (ustr ''regions_delete'')) = 0"
    using disallowed_fields_count [OF d v', of "ustr ''regions''" "ustr ''regions_delete''"]
    by (simp add: regions_record_def optional_dict_def ustr_def)
  have e: "validate (DictFieldChecker [Field (ustr ''id'') (Instance (PyUnicode [])) []]
       [Field (ustr ''alias'') (Instance (PyUnicode [])) [ustr ''id'']] [])
     (PyDict [(ustr ''id'', PyUnicode (ustr ''A1'')), (ustr ''alias'', PyUnicode (ustr ''A''))])
     True = Inr ([Fields_not_allowed (ustr ''alias'') (ustr ''id'')], [])"
    by (simp add: validate.simps DictFieldChecker_check_field.simps eval_defs)
  from d v a b c e show ?thesis by blast
qed

section \<open>The order of the items of a dict\<close>

text \<open>
  The required fields are looked up by name, and only the items that are left after them
  are taken in the order of the dict. So two dicts with the same items, and with the same
  list of items that no required field names, are validated alike.
\<close>

lemma check_field_cfs:
  assumes "set cfs = set cfs'"
  shows "DictFieldChecker_check_field fn v vf cfs st r =
         DictFieldChecker_check_field fn v vf cfs' st r"
proof -
  have "check_disallowed n ds cfs errors = check_disallowed n ds cfs' errors" for n ds errors
    using assms by (simp add: check_disallowed_eq)
  then show ?thesis
    by (cases st) (simp add: DictFieldChecker_check_field.simps split: sum.splits prod.splits)
qed

lemma required_order:
  "map_of cand = map_of cand' \<Longrightarrow> set cfs = set cfs' \<Longrightarrow>
   map_sum id snd (DictFieldChecker_required fs cand cfs st) =
   map_sum id snd (DictFieldChecker_required fs cand' cfs' st)"
proof (induction fs arbitrary: cand cand' st)
  case Nil
  show ?case by simp
next
  case (Cons f fs)
  obtain E W where st: "st = (E, W)" by (cases st)
  have pop: "map_of (dict_pop (name f) cand) = map_of (dict_pop (name f) cand')"
    using Cons.prems(1) by (auto simp: map_of_dict_pop)
  show ?case
    unfolding st
    using Cons.IH [OF Cons.prems] Cons.IH [OF pop Cons.prems(2)] Cons.prems(1)
      check_field_cfs [OF Cons.prems(2)]
    by (simp split: option.splits sum.splits)
qed

lemma remaining_cfs:
  "set cfs = set cfs' \<Longrightarrow>
   DictFieldChecker_remaining fs items cfs st = DictFieldChecker_remaining fs items cfs' st"
proof (induction items arbitrary: st)
  case Nil
  show ?case by simp
next
  case (Cons kv items)
  obtain E W where st: "st = (E, W)" by (cases st)
  obtain k v where kv: "kv = (k, v)" by (cases kv)
  show ?case
    unfolding st kv
    using Cons.IH [OF Cons.prems] check_field_cfs [OF Cons.prems]
    by (simp split: option.splits sum.splits)
qed

lemma validate_dict_order:
  assumes "map_of kvs = map_of kvs'"
    and "filter (\<lambda>kv. fst kv \<notin> name ` set req) kvs = filter (\<lambda>kv. fst kv \<notin> name ` set req) kvs'"
  shows "validate (DictFieldChecker req opt hist) (PyDict kvs) r =
         validate (DictFieldChecker req opt hist) (PyDict kvs') r"
proof -
  from assms(1) have "dom (map_of kvs) = dom (map_of kvs')" by simp
  then have cfs: "set (map fst kvs) = set (map fst kvs')"
    by (simp add: dom_map_of_conv_image_fst)
  let ?R = "DictFieldChecker_required req kvs (map fst kvs) ([], [])"
  let ?R' = "DictFieldChecker_required req kvs' (map fst kvs') ([], [])"
  have eq: "map_sum id snd ?R = map_sum id snd ?R'"
    by (rule required_order [OF assms(1) cfs])
  show ?thesis
  proof (cases ?R)
    case (Inl x)
    with eq have "?R' = Inl x" by (cases ?R') auto
    with Inl show ?thesis by (simp add: validate_DictFieldChecker)
  next
    case (Inr a)
    obtain c st where a: "a = (c, st)" by (cases a)
    from eq Inr a obtain c' where R': "?R' = Inr (c', st)" by (cases ?R') auto
    from required_candidate [OF Inr [unfolded a]] required_candidate [OF R'] assms(2)
    have "c' = c" by simp
    with Inr a R' remaining_cfs [OF cfs] show ?thesis
      by (simp add: validate_DictFieldChecker)
  qed
qed

lemma same_items:
  assumes "distinct (map fst kvs)" and "set kvs = set kvs'" and "distinct (map fst kvs')"
  shows "map_of kvs = map_of kvs'"
  using assms by (simp add: map_of_inject_set)

lemma filter_single:
  assumes "distinct xs" and "set (filter P xs) = {x}"
  shows "filter P xs = [x]"
proof -
  have d: "distinct (filter P xs)" using assms(1) by simp
  have "card (set (filter P xs)) = length (filter P xs)"
    using d by (rule distinct_card)
  with assms(2) have "length (filter P xs) = 1" by (simp del: set_filter)
  then obtain y where "filter P xs = [y]"
    by (cases "filter P xs") auto
  with assms(2) show ?thesis by auto
qed

lemma validate_artist_of_track:
  assumes "distinct (map fst akvs)"
    and "set akvs = {(ustr ''id'', PyUnicode (ustr ''A1'')), (ustr ''name'', PyUnicode (ustr ''Artist''))}"
  shows "validate (DictFieldChecker
        [Field (ustr ''id'') (Instance (PyUnicode [])) [],
         Field (ustr ''name'') (Instance (PyUnicode [])) []] [] []) (PyDict akvs) True = Inr ([], [])"
proof -
  let ?kvs = "[(ustr ''id'', PyUnicode (ustr ''A1'')), (ustr ''name'', PyUnicode (ustr ''Artist''))]"
  have m: "map_of akvs = map_of ?kvs"
    using assms by (intro same_items) (simp_all add: ustr_def)
  have f: "filter (\<lambda>kv. fst kv \<notin> name ` set [Field (ustr ''id'') (Instance (PyUnicode [])) [],
         Field (ustr ''name'') (Instance (PyUnicode [])) []]) akvs =
     filter (\<lambda>kv. fst kv \<notin> name ` set [Field (ustr ''id'') (Instance (PyUnicode [])) [],
         Field (ustr ''name'') (Instance (PyUnicode [])) []]) ?kvs"
    using assms(2) by (auto simp: filter_empty_conv)
  show ?thesis
    unfolding validate_dict_order [OF m f]
    by (simp add: validate.simps DictFieldChecker_check_field.simps eval_defs)
qed

lemma filter_only:
  assumes "distinct xs" and "set xs = S" and "x \<in> S" and "P x" and "\<forall>y\<in>S. P y \<longrightarrow> y = x"
  shows "filter P xs = [x]"
proof -
  have "{y \<in> S. P y} = {x}"
    using assms(3-5) by blast
  then have "set (filter P xs) = {x}"
    by (simp add: assms(2))
  with assms(1) show ?thesis by (rule filter_single)
qed

lemma validate_track_record:
  assumes "distinct (map fst kvs)"
    and "set kvs = {(ustr ''type'', PyUnicode (ustr ''track'')),
                    (ustr ''id'', PyUnicode (ustr ''T1'')),
                    (ustr ''name'', PyUnicode (ustr ''Song'')),
                    (ustr ''artist'', PyDict akvs)}"
    and "distinct (map fst akvs)"
    and "set akvs = {(ustr ''id'', PyUnicode (ustr ''A1'')),
                     (ustr ''name'', PyUnicode (ustr ''Artist''))}"
  shows "validate track_fields (PyDict kvs) True = Inr ([], [])"
proof -
  let ?kvs = "[(ustr ''type'', PyUnicode (ustr ''track'')),
               (ustr ''id'', PyUnicode (ustr ''T1'')),
               (ustr ''name'', PyUnicode (ustr ''Song'')),
               (ustr ''artist'', PyDict akvs)]"
  let ?req = "[Field (ustr ''type'') (Instance (PyUnicode [])) [],
      Field (ustr ''id'') (Instance (PyUnicode [])) [],
      Field (ustr ''name'') (Instance (PyUnicode [])) [],
      Field (ustr ''artist'') (Checker (DictFieldChecker
        [Field (ustr ''id'') (Instance (PyUnicode [])) [],
         Field (ustr ''name'') (Instance (PyUnicode [])) []] [] [])) []]"
  have m: "map_of kvs = map_of ?kvs"
    using assms(1,2) by (intro same_items) (simp_all add: ustr_def)
  have f: "filter (\<lambda>kv. fst kv \<notin> name ` set ?req) kvs = filter (\<lambda>kv. fst kv \<notin> name ` set ?req) ?kvs"
    using assms(2) by (auto simp: filter_empty_conv)
  have n: "validate (DictFieldChecker
           [Field (ustr ''id'') (Instance (PyUnicode [])) [],
            Field (ustr ''name'') (Instance (PyUnicode [])) []] [] [])
           (PyDict akvs) True = Inr ([], [])"
    using assms(3,4) by (rule validate_artist_of_track)
  define nested where "nested = DictFieldChecker
           [Field (ustr ''id'') (Instance (PyUnicode [])) [],
            Field (ustr ''name'') (Instance (PyUnicode [])) []] [] []"
  have "validate (DictFieldChecker
      [Field (ustr ''type'') (Instance (PyUnicode [])) [],
       Field (ustr ''id'') (Instance (PyUnicode [])) [],
       Field (ustr ''name'') (Instance (PyUnicode [])) [],
       Field (ustr ''artist'') (Checker nested) []] opt hist) (PyDict ?kvs) True = Inr ([], [])"
    for opt hist
    using n [folded nested_def]
    by (simp add: validate_DictFieldChecker DictFieldChecker_check_field.simps eval_defs)
  then show ?thesis
    unfolding track_fields_def validate_dict_order [OF m f] nested_def .
qed

lemma validate_blank_name:
  assumes "distinct (map fst kvs)"
    and "set kvs = {(ustr ''id'', PyUnicode (ustr ''A1'')), (ustr ''name'', PyUnicode s),
                    (ustr ''published'', PyBool True)}"
    and "py_strip s = []"
  shows "validate artist_fields (PyDict kvs) True =
           Inr ([], [Was_required (ustr ''name'') (PyUnicode s)])"
proof -
  let ?kvs = "[(ustr ''id'', PyUnicode (ustr ''A1'')), (ustr ''name'', PyUnicode s),
               (ustr ''published'', PyBool True)]"
  let ?req = "[Field (ustr ''id'') (Instance (PyUnicode [])) [],
               Field (ustr ''name'') (Instance (PyUnicode [])) []]"
  have m: "map_of kvs = map_of ?kvs"
    using assms(1,2) by (intro same_items) (simp_all add: ustr_def)
  have d: "distinct kvs"
    using assms(1) by (rule distinct_map [THEN iffD1, THEN conjunct1])
  have "filter (\<lambda>kv. fst kv \<notin> name ` set ?req) kvs = [(ustr ''published'', PyBool True)]"
    by (rule filter_only [OF d assms(2)]) (simp_all add: ustr_def)
  then have f: "filter (\<lambda>kv. fst kv \<notin> name ` set ?req) kvs = filter (\<lambda>kv. fst kv \<notin> name ` set ?req) ?kvs"
    by (simp add: ustr_def)
  have a: "valid_entry (PyUnicode (ustr ''A1''))"
    by (simp add: eval_defs)
  have b: "\<not> valid_entry (PyUnicode s)"
    using assms(3) by simp
  have "validate artist_fields (PyDict ?kvs) True =
          Inr ([], [Was_required (ustr ''name'') (PyUnicode s)])"
    using a b
    by (simp add: artist_fields_def validate.simps DictFieldChecker_check_field.simps
        isinstance_def optional_dict_def dict_pop_def ustr_def del: valid_entry.simps)
  then show ?thesis
    unfolding artist_fields_def validate_dict_order [OF m f] .
qed

section \<open>A blank entry in a required field\<close>

text \<open>
  A string is empty after \<^verbatim>\<open>strip()\<close> when all its characters are white space, and then
  \<^verbatim>\<open>int()\<close> of it is a \<^verbatim>\<open>ValueError\<close>.
\<close>

lemma py_strip_blank: "py_strip s = [] \<longleftrightarrow> list_all py_isspace s"
proof -
  have "dropWhile py_isspace (rev (dropWhile py_isspace s)) = [] \<longleftrightarrow> dropWhile py_isspace s = []"
  proof
    assume "dropWhile py_isspace (rev (dropWhile py_isspace s)) = []"
    then have all: "\<forall>x\<in>set (dropWhile py_isspace s). py_isspace x"
      by (simp add: dropWhile_eq_Nil_conv)
    show "dropWhile py_isspace s = []"
    proof (rule ccontr)
      assume ne: "dropWhile py_isspace s \<noteq> []"
      then have "\<not> py_isspace (hd (dropWhile py_isspace s))"
        by (rule hd_dropWhile)
      moreover from ne have "hd (dropWhile py_isspace s) \<in> set (dropWhile py_isspace s)"
        by (rule hd_in_set)
      ultimately show False using all by blast
    qed
  next
    assume e: "dropWhile py_isspace s = []"
    show "dropWhile py_isspace (rev (dropWhile py_isspace s)) = []"
      unfolding e by simp
  qed
  then show ?thesis
    by (simp add: py_strip_def dropWhile_eq_Nil_conv list_all_iff)
qed

lemma encode_decimal_blank:
  "list_all py_isspace s \<Longrightarrow> encode_decimal s = Some (replicate (length s) 32)"
  by (induction s) simp_all

lemma py_int_blank:
  assumes "py_strip s = []"
  shows "py_int (PyUnicode s) = Inl ValueError"
proof -
  from assms have "encode_decimal s = Some (replicate (length s) 32)"
    by (simp add: py_strip_blank encode_decimal_blank)
  moreover have "dropWhile c_isspace (replicate n 32) = []" for n
    by (simp add: dropWhile_eq_Nil_conv c_isspace_def)
  ultimately show ?thesis
    by (simp add: py_int_text_def)
qed

text \<open>
  Claim C5, as stated: a required field whose value is blank text produces a warning and
  not an error. It produces the warning, and an error as well when the field does not
  expect text: the required field \<open>artist\<close> of a track expects a dict, and a required
  field that expects an \<^verbatim>\<open>int\<close> has \<^verbatim>\<open>int('')\<close> fail.
\<close>

theorem blank_required_field_with_error:
  "py_strip [] = [] \<and>
   validate track_fields
     (PyDict [(ustr ''type'', PyUnicode (ustr ''track'')), (ustr ''id'', PyUnicode (ustr ''T1'')),
              (ustr ''name'', PyUnicode (ustr ''Song'')), (ustr ''artist'', PyUnicode [])]) True =
     Inr ([Found_error_in_field (ustr ''artist'') (Expected_type ''dict'' ''unicode'')],
          [Was_required (ustr ''artist'') (PyUnicode [])]) \<and>
   validate (DictFieldChecker [Field (ustr ''release_year'') (Instance (PyInt 0)) []] [] [])
     (PyDict [(ustr ''release_year'', PyUnicode [])]) True =
     Inr ([Field_had_incorrect_type (ustr ''release_year'') ''int'' ''unicode''],
          [Was_required (ustr ''release_year'') (PyUnicode [])])"
  by (simp add: track_fields_def validate.simps DictFieldChecker_check_field.simps eval_defs)

text \<open>
  Claim C5, amended. \<^verbatim>\<open>valid_entry\<close> holds of every value that is not a unicode string,
  and of a unicode string exactly when it is not empty after \<^verbatim>\<open>strip()\<close>, that is when
  not all its characters are white space of Unicode. For a required field whose value
  is such a blank string, \<^verbatim>\<open>DictFieldChecker._check_field\<close> adds exactly one warning, and
  the errors that the field's expected value asks for: none for an instance of
  \<^verbatim>\<open>unicode\<close> or \<^verbatim>\<open>object\<close>, a type error for an instance of another type (for
  \<^verbatim>\<open>int\<close> too, since \<^verbatim>\<open>int()\<close> of a blank string fails), and the errors of the
  nested checker, which for a dict or list checker is the error of the wrong top-level
  type. The artist record \<^verbatim>\<open>{"id":"A1","name":s,"published":true}\<close> with a blank \<open>s\<close>, in
  whatever order the dict gives its items, validated with \<open>required = True\<close>: no error
  and one warning, for the blank \<open>name\<close>.
\<close>

theorem blank_required_field_is_warning:
  "(type_of v \<noteq> T_unicode \<longrightarrow> valid_entry v) \<and>
   (valid_entry (PyUnicode s) \<longleftrightarrow> py_strip s \<noteq> []) \<and>
   (py_strip s = [] \<longleftrightarrow> list_all py_isspace s) \<and>
   (py_strip s = [] \<longrightarrow>
      DictFieldChecker_check_field fn (PyUnicode s) vf cfs (errors, warnings) True =
        Inr (check_disallowed (name vf) (disallowedFields vf) cfs
               (errors @
                (case expectedValue vf of
                   Instance ev \<Rightarrow>
                     if type_of ev = T_unicode \<or> type_of ev = T_object then []
                     else [type_error fn ev (PyUnicode s)]
                 | Checker c \<Rightarrow>
                     map (Found_error_in_field fn)
                       (case c of
                          StringListChecker fs \<Rightarrow> if s \<in> set fs then [] else [Not_in_list s fs]
                        | _ \<Rightarrow> [Expected_type (type_name (topLevelType c)) ''unicode'']))),
             warnings @ [Was_required fn (PyUnicode s)]) \<and>
      (distinct (map fst kvs) \<and>
       set kvs = {(ustr ''id'', PyUnicode (ustr ''A1'')), (ustr ''name'', PyUnicode s),
                  (ustr ''published'', PyBool True)} \<longrightarrow>
         validate artist_fields (PyDict kvs) True =
           Inr ([], [Was_required (ustr ''name'') (PyUnicode s)])))"
proof -
  have other: "type_of v \<noteq> T_unicode \<longrightarrow> valid_entry v"
    by (cases v) simp_all
  have field: "DictFieldChecker_check_field fn (PyUnicode s) vf cfs (errors, warnings) True =
        Inr (check_disallowed (name vf) (disallowedFields vf) cfs
               (errors @
                (case expectedValue vf of
                   Instance ev \<Rightarrow>
                     if type_of ev = T_unicode \<or> type_of ev = T_object then []
                     else [type_error fn ev (PyUnicode s)]
                 | Checker c \<Rightarrow>
                     map (Found_error_in_field fn)
                       (case c of
                          StringListChecker fs \<Rightarrow> if s \<in> set fs then [] else [Not_in_list s fs]
                        | _ \<Rightarrow> [Expected_type (type_name (topLevelType c)) ''unicode'']))),
             warnings @ [Was_required fn (PyUnicode s)])"
    if blank: "py_strip s = []"
  proof (cases "expectedValue vf")
    case (Instance ev)
    from blank have "py_int (PyUnicode s) = Inl ValueError"
      by (rule py_int_blank)
    with Instance blank show ?thesis
      by (simp add: DictFieldChecker_check_field.simps isinstance_def type_error_def
          del: py_int.simps)
  next
    case (Checker c)
    with blank show ?thesis
      by (cases c)
        (simp_all add: DictFieldChecker_check_field.simps validate.simps isinstance_def
          StringListChecker_validate_def)
  qed
  show ?thesis
    using other field validate_blank_name [of kvs s] py_strip_blank [of s] by simp
qed

theorem blank_required_field_is_warning_witness:
  "py_strip [0xA0, 0x2003, 0x3000, 9] = [] \<and>
   \<not> valid_entry (PyUnicode [0xA0, 0x2003, 0x3000, 9]) \<and>
   validate artist_fields
     (PyDict [(ustr ''published'', PyBool True), (ustr ''id'', PyUnicode (ustr ''A1'')),
              (ustr ''name'', PyUnicode [0xA0, 0x2003, 0x3000, 9])]) True =
     Inr ([], [Was_required (ustr ''name'') (PyUnicode [0xA0, 0x2003, 0x3000, 9])]) \<and>
   DictFieldChecker_check_field (ustr ''release_year'') (PyUnicode [0xA0, 0x2003, 0x3000, 9])
     (Field (ustr ''release_year'') (Instance (PyInt 0)) []) [] ([], []) True =
     Inr ([Field_had_incorrect_type (ustr ''release_year'') ''int'' ''unicode''],
          [Was_required (ustr ''release_year'') (PyUnicode [0xA0, 0x2003, 0x3000, 9])]) \<and>
   type_of (PyBool True) \<noteq> T_unicode \<and> valid_entry (PyBool True)"
proof -
  let ?s = "[0xA0, 0x2003, 0x3000, 9] :: unicode"
  let ?kvs = "[(ustr ''published'', PyBool True), (ustr ''id'', PyUnicode (ustr ''A1'')),
               (ustr ''name'', PyUnicode ?s)]"
  have d: "distinct (map fst ?kvs)"
    by (simp add: ustr_def)
  have k: "set ?kvs = {(ustr ''id'', PyUnicode (ustr ''A1'')), (ustr ''name'', PyUnicode ?s),
                       (ustr ''published'', PyBool True)}"
    by (simp add: insert_commute)
  have b: "py_strip ?s = []"
    by (simp add: eval_defs)
  from blank_required_field_is_warning
    [of "PyBool True" ?s "ustr ''release_year''"
      "Field (ustr ''release_year'') (Instance (PyInt 0)) []" "[]" "[]" "[]" ?kvs] d k b
  show ?thesis
    by (simp add: type_error_def del: DictFieldChecker_check_field.simps valid_entry.simps)
qed

section \<open>A valid track line\<close>

text \<open>
  Claim C9. A file of the one line
  \<^verbatim>\<open>{"type":"track","id":"T1","name":"Song","artist":{"id":"A1","name":"Artist"}}\<close>,
  which the decoder reads as the dict of these four items, the artist a dict of two, each
  dict in whatever order, validated against \<open>track_fields\<close>: no error, no warning, and the
  line count 1, whatever the error budget.
\<close>

theorem track_end_to_end:
  assumes "loads line = Inr (PyDict kvs)"
    and "distinct (map fst kvs)"
    and "set kvs = {(ustr ''type'', PyUnicode (ustr ''track'')),
                    (ustr ''id'', PyUnicode (ustr ''T1'')),
                    (ustr ''name'', PyUnicode (ustr ''Song'')),
                    (ustr ''artist'', PyDict akvs)}"
    and "distinct (map fst akvs)"
    and "set akvs = {(ustr ''id'', PyUnicode (ustr ''A1'')),
                     (ustr ''name'', PyUnicode (ustr ''Artist''))}"
    and "line \<noteq> []" and "last line \<notin> set JSON_UNICODE_PROBLEMS"
  shows "validateFile stdout loads ([line], StopIteration) track_fields max_errors =
           Inr ([], [], 1, False)"
  using assms(1,6,7) validate_track_record [OF assms(2-5)]
  by (simp add: validateFile_def safe_file_reader_def)

theorem track_end_to_end_witness:
  "track_line \<noteq> [] \<and> last track_line \<notin> set JSON_UNICODE_PROBLEMS \<and>
   validateFile (\<lambda>c. c < 128)
     (\<lambda>l. if l = track_line then Inr track_record else Inl ''No JSON object could be decoded'')
     ([track_line], StopIteration) track_fields 1000 = Inr ([], [], 1, False)"
proof -
  let ?loads = "\<lambda>l. if l = track_line then Inr track_record
                      else Inl ''No JSON object could be decoded''"
  let ?akvs = "[(ustr ''id'', PyUnicode (ustr ''A1'')), (ustr ''name'', PyUnicode (ustr ''Artist''))]"
  let ?kvs = "[(ustr ''type'', PyUnicode (ustr ''track'')), (ustr ''id'', PyUnicode (ustr ''T1'')),
               (ustr ''name'', PyUnicode (ustr ''Song'')), (ustr ''artist'', PyDict ?akvs)]"
  have a: "track_line \<noteq> []" by (simp add: track_line_def ustr_def)
  have b: "last track_line \<notin> set JSON_UNICODE_PROBLEMS"
    by (simp add: track_line_def ustr_def JSON_UNICODE_PROBLEMS_def)
  have l: "?loads track_line = Inr (PyDict ?kvs)"
    by (simp add: track_record_def)
  have d: "distinct (map fst ?kvs)" "distinct (map fst ?akvs)"
    by (simp_all add: ustr_def)
  have s: "set ?kvs = {(ustr ''type'', PyUnicode (ustr ''track'')),
                       (ustr ''id'', PyUnicode (ustr ''T1'')),
                       (ustr ''name'', PyUnicode (ustr ''Song'')),
                       (ustr ''artist'', PyDict ?akvs)}"
    "set ?akvs = {(ustr ''id'', PyUnicode (ustr ''A1'')),
                  (ustr ''name'', PyUnicode (ustr ''Artist''))}"
    by simp_all
  from track_end_to_end [of ?loads track_line ?kvs ?akvs "\<lambda>c. c < 128" 1000,
      OF l d(1) s(1) d(2) s(2) a b] a b
  show ?thesis by simp
qed

section \<open>The lines the reader yields\<close>

lemma last_concat_nonempty:
  "xs \<noteq> [] \<Longrightarrow> [] \<notin> set xs \<Longrightarrow> last (concat xs) = last (last xs)"
proof (induction xs)
  case Nil
  then show ?case by simp
next
  case (Cons a xs)
  show ?case
  proof (cases "xs = []")
    case True
    then show ?thesis by simp
  next
    case False
    with Cons.prems obtain x where "x \<in> set xs" and "x \<noteq> []"
      by (cases xs) auto
    then have "concat xs \<noteq> []" by auto
    with Cons False show ?thesis by simp
  qed
qed

lemma reader_loop_merge:
  assumes "p \<noteq> []" and "last p \<in> set JSON_UNICODE_PROBLEMS"
  shows "safe_file_reader_loop acc (pre @ p # q # rest) e =
         safe_file_reader_loop acc (pre @ (p @ q) # rest) e"
proof (induction pre arbitrary: acc)
  case Nil
  from assms show ?case by (simp add: Let_def)
next
  case (Cons x pre)
  then show ?case by (simp add: Let_def)
qed

lemma reader_loop_lines:
  assumes "[] \<notin> set phys"
  shows "\<exists>ls. safe_file_reader_loop acc phys StopIteration = (ls, Returned) \<and>
           concat ls = acc @ concat phys \<and> [] \<notin> set ls \<and>
           (\<forall>l\<in>set (butlast ls). last l \<notin> set JSON_UNICODE_PROBLEMS)"
  using assms
proof (induction phys arbitrary: acc)
  case Nil
  then show ?case by simp
next
  case (Cons p phys)
  then have p: "p \<noteq> []" and rest: "[] \<notin> set phys" by auto
  show ?case
  proof (cases "last (acc @ p) \<in> set JSON_UNICODE_PROBLEMS")
    case True
    from Cons.IH [OF rest, of "acc @ p"] True p show ?thesis
      by (simp add: Let_def)
  next
    case False
    from Cons.IH [OF rest, of "[]"] obtain ys where
      ys: "safe_file_reader_loop [] phys StopIteration = (ys, Returned)"
        "concat ys = concat phys" "[] \<notin> set ys"
        "\<forall>l\<in>set (butlast ys). last l \<notin> set JSON_UNICODE_PROBLEMS"
      by auto
    have "safe_file_reader_loop acc (p # phys) StopIteration = ((acc @ p) # ys, Returned)"
      using False p ys(1) by (simp add: Let_def)
    moreover have "\<forall>l\<in>set (butlast ((acc @ p) # ys)). last l \<notin> set JSON_UNICODE_PROBLEMS"
      using False ys(4) by auto
    ultimately show ?thesis using ys(2,3) p by auto
  qed
qed

text \<open>
  Claim C8. For a stream of non-empty physical lines that ends with \<^verbatim>\<open>StopIteration\<close>,
  the reader returns after yielding logical lines \<open>ls\<close> such that: together they are the
  whole input, nothing lost and nothing added, so a last fragment without a terminator
  is yielded too, and the last character read is the last character yielded; none is
  empty; none but the last ends in U+2028 or U+2029; and a physical line ending in one of
  the two, followed by another physical line, is read as if the two were one physical
  line.
\<close>

theorem reader_joins_lines:
  assumes "[] \<notin> set phys"
  shows "\<exists>ls. safe_file_reader (phys, StopIteration) = (ls, Returned) \<and>
           concat ls = concat phys \<and> [] \<notin> set ls \<and>
           (\<forall>l\<in>set (butlast ls). last l \<notin> set JSON_UNICODE_PROBLEMS) \<and>
           (\<forall>pre p q rest. phys = pre @ p # q # rest \<and> last p \<in> set JSON_UNICODE_PROBLEMS \<longrightarrow>
              safe_file_reader (pre @ (p @ q) # rest, StopIteration) = (ls, Returned)) \<and>
           (phys \<noteq> [] \<longrightarrow> ls \<noteq> [] \<and> last (last ls) = last (last phys))"
proof -
  from reader_loop_lines [OF assms, of "[]"] obtain ls where
    ls: "safe_file_reader_loop [] phys StopIteration = (ls, Returned)"
      "concat ls = concat phys" "[] \<notin> set ls"
      "\<forall>l\<in>set (butlast ls). last l \<notin> set JSON_UNICODE_PROBLEMS"
    by auto
  have "safe_file_reader (pre @ (p @ q) # rest, StopIteration) = (ls, Returned)"
    if "phys = pre @ p # q # rest" and "last p \<in> set JSON_UNICODE_PROBLEMS" for pre p q rest
  proof -
    from that assms have "p \<noteq> []" by auto
    from reader_loop_merge [OF this that(2), of "[]" pre q rest StopIteration] ls(1) that(1)
    show ?thesis by (simp add: safe_file_reader_def)
  qed
  moreover have "ls \<noteq> [] \<and> last (last ls) = last (last phys)" if "phys \<noteq> []"
  proof -
    from that assms have "concat phys \<noteq> []" by (cases phys) auto
    with ls(2) have "ls \<noteq> []" by auto
    moreover from this ls(3) have "last (concat ls) = last (last ls)"
      by (rule last_concat_nonempty)
    moreover from that assms have "last (concat phys) = last (last phys)"
      by (rule last_concat_nonempty)
    ultimately show ?thesis using ls(2) by simp
  qed
  ultimately show ?thesis using ls by (auto simp: safe_file_reader_def)
qed

theorem reader_joins_lines_witness:
  "[] \<notin> set [ustr ''{\"a\":\"x'' @ [0x2028], ustr ''y\"}'' @ [10], ustr ''{}'' @ [0x2029]] \<and>
   safe_file_reader ([ustr ''{\"a\":\"x'' @ [0x2028] @ ustr ''y\"}'' @ [10], ustr ''{}'' @ [0x2029]],
       StopIteration) =
     ([ustr ''{\"a\":\"x'' @ [0x2028] @ ustr ''y\"}'' @ [10], ustr ''{}'' @ [0x2029]], Returned) \<and>
   safe_file_reader ([ustr ''{\"a\":\"x'' @ [0x2028], ustr ''y\"}'' @ [10], ustr ''{}'' @ [0x2029]],
       StopIteration) =
     ([ustr ''{\"a\":\"x'' @ [0x2028] @ ustr ''y\"}'' @ [10], ustr ''{}'' @ [0x2029]], Returned)"
  using reader_joins_lines
    [of "[ustr ''{\"a\":\"x'' @ [0x2028], ustr ''y\"}'' @ [10], ustr ''{}'' @ [0x2029]]"]
  by (simp add: eval_defs)

section \<open>The error budget\<close>

lemma loop_step:
  assumes "\<not> raising_line stdout loads ck l"
  shows "\<exists>errors' warnings'.
           length errors' = length errors + (if error_line loads ck l then 1 else 0) \<and>
           (\<forall>m rest t. \<not> (0 < m \<and> m \<le> int (length errors)) \<longrightarrow>
              validateFile_loop stdout loads ck m (l # rest) t idx (errors, warnings, lc) =
              validateFile_loop stdout loads ck m rest t (idx + 1) (errors', warnings', idx))"
proof (cases "loads l")
  case (Inl e)
  then show ?thesis
    by (intro exI [of _ "errors @ [Found_invalid_JSON (idx + 1) e]"] exI [of _ warnings])
      (auto simp: error_line_def Let_def)
next
  case (Inr candidate)
  with assms obtain ve ws where v: "validate ck candidate True = Inr (ve, ws)"
    and p: "\<not> list_ex (\<lambda>warn. print_raises stdout (warning_text warn)) ws"
    by (cases "validate ck candidate True") (auto simp: raising_line_def)
  show ?thesis
    by (intro exI [of _ "if length ve > 0 then errors @ [Does_not_match_schema (idx + 1) ve] else errors"]
        exI [of _ "warnings @ ws"])
      (auto simp: error_line_def Let_def Inr v p)
qed

lemma budget_loop:
  assumes "0 < N" and "length errors \<le> N"
    and "N < length errors + length (filter (error_line loads ck) lines)"
    and "\<forall>pre l post.
           lines = pre @ l # post \<and> length errors + length (filter (error_line loads ck) pre) < N \<longrightarrow>
           \<not> raising_line stdout loads ck l"
  shows "\<exists>pre post E W. lines = pre @ post \<and> post \<noteq> [] \<and>
           (length errors = N \<longrightarrow> pre = []) \<and>
           (length errors < N \<longrightarrow> pre \<noteq> [] \<and> error_line loads ck (last pre)) \<and>
           length errors + length (filter (error_line loads ck) pre) = N \<and>
           validateFile_loop stdout loads ck (int N) lines t idx (errors, warnings, lc) =
             Inr (E, W, idx + int (length pre), True) \<and>
           length E = N \<and>
           validateFile_loop stdout loads ck (- 1) pre Returned idx (errors, warnings, lc) =
             Inr (E, W, (if pre = [] then lc + 1 else idx + int (length pre)), False)"
  using assms
proof (induction lines arbitrary: errors warnings lc idx)
  case Nil
  then show ?case by simp
next
  case (Cons l lines)
  show ?case
  proof (cases "length errors = N")
    case True
    with Cons.prems(1) have "validateFile_loop stdout loads ck (int N) (l # lines) t idx (errors, warnings, lc) =
        Inr (errors, warnings, idx, True)"
      by (simp add: Let_def)
    with True show ?thesis
      by (intro exI [of _ "[]"] exI [of _ "l # lines"] exI [of _ errors] exI [of _ warnings]) simp
  next
    case False
    with Cons.prems(2) have less: "length errors < N" by simp
    from Cons.prems(4) [rule_format, of "[]" l lines] less
    have nr: "\<not> raising_line stdout loads ck l" by simp
    from loop_step [OF nr, of errors idx warnings lc] obtain errors' warnings' where
      len: "length errors' = length errors + (if error_line loads ck l then 1 else 0)" and
      step: "\<And>m rest t. \<not> (0 < m \<and> m \<le> int (length errors)) \<Longrightarrow>
              validateFile_loop stdout loads ck m (l # rest) t idx (errors, warnings, lc) =
              validateFile_loop stdout loads ck m rest t (idx + 1) (errors', warnings', idx)"
      by blast
    have le': "length errors' \<le> N" using len less by simp
    have more': "N < length errors' + length (filter (error_line loads ck) lines)"
      using Cons.prems(3) len by (simp split: if_splits)
    have nr': "\<forall>pre l' post.
        lines = pre @ l' # post \<and> length errors' + length (filter (error_line loads ck) pre) < N \<longrightarrow>
        \<not> raising_line stdout loads ck l'"
    proof (intro allI impI)
      fix pre l' post
      assume "lines = pre @ l' # post \<and>
        length errors' + length (filter (error_line loads ck) pre) < N"
      then have "l # lines = (l # pre) @ l' # post"
        and "length errors + length (filter (error_line loads ck) (l # pre)) < N"
        using len by (simp_all split: if_splits)
      with Cons.prems(4) show "\<not> raising_line stdout loads ck l'" by blast
    qed
    from Cons.IH [OF Cons.prems(1) le' more' nr', of "idx + 1" warnings' idx]
    obtain pre post E W where ih:
      "lines = pre @ post" "post \<noteq> []"
      "length errors' = N \<longrightarrow> pre = []"
      "length errors' < N \<longrightarrow> pre \<noteq> [] \<and> error_line loads ck (last pre)"
      "length errors' + length (filter (error_line loads ck) pre) = N"
      "validateFile_loop stdout loads ck (int N) lines t (idx + 1) (errors', warnings', idx) =
         Inr (E, W, idx + 1 + int (length pre), True)"
      "length E = N"
      "validateFile_loop stdout loads ck (- 1) pre Returned (idx + 1) (errors', warnings', idx) =
         Inr (E, W, (if pre = [] then idx + 1 else idx + 1 + int (length pre)), False)"
      by blast
    have a: "validateFile_loop stdout loads ck (int N) (l # lines) t idx (errors, warnings, lc) =
        Inr (E, W, idx + int (length (l # pre)), True)"
      using step [of "int N" lines t] less ih(6) by simp
    have b: "validateFile_loop stdout loads ck (- 1) (l # pre) Returned idx (errors, warnings, lc) =
        Inr (E, W, idx + int (length (l # pre)), False)"
      using step [of "- 1" pre Returned] ih(8) by (simp split: if_splits)
    have c: "error_line loads ck (last (l # pre))"
    proof (cases "pre = []")
      case True
      with ih(5) len less show ?thesis by (simp split: if_splits)
    next
      case False
      with ih(3,4) le' show ?thesis by (cases "length errors' = N") auto
    qed
    have d: "length errors + length (filter (error_line loads ck) (l # pre)) = N"
      using ih(5) len by (simp split: if_splits)
    show ?thesis
      using ih(1,2,7) a b c d less
      by (intro exI [of _ "l # pre"] exI [of _ post] exI [of _ E] exI [of _ W]) simp
  qed
qed

text \<open>
  The budget on a stream whose lines raise nothing. With \<open>max_errors = N > 0\<close> and more
  than \<open>N\<close> error lines among the lines the reader yields, and when neither \<^verbatim>\<open>validate\<close>
  nor the \<^verbatim>\<open>print\<close> of a warning raises on a line that comes while fewer than \<open>N\<close> error
  lines have passed, the driver stops early: it returns \<open>N\<close> errors and
  \<open>stoppedEarly = True\<close>, and the line count is the number of lines \<open>pre\<close> that it
  examined. These are the lines up to the \<open>N\<close>th error line, with at least one line left
  after them, and the errors and warnings returned are those of examining \<open>pre\<close> alone
  with no budget.
\<close>

theorem error_budget:
  assumes "0 < N"
    and "safe_file_reader input_file = (lines, t)"
    and "N < length (filter (error_line loads ck) lines)"
    and "\<forall>pre l post.
           lines = pre @ l # post \<and> length (filter (error_line loads ck) pre) < N \<longrightarrow>
           \<not> raising_line stdout loads ck l"
  shows "\<exists>pre post errors warnings.
           lines = pre @ post \<and> post \<noteq> [] \<and> pre \<noteq> [] \<and> error_line loads ck (last pre) \<and>
           length (filter (error_line loads ck) pre) = N \<and>
           validateFile stdout loads input_file ck (int N) =
             Inr (errors, warnings, int (length pre), True) \<and>
           length errors = N \<and>
           validateFile_loop stdout loads ck (- 1) pre Returned 0 ([], [], 0) =
             Inr (errors, warnings, int (length pre), False)"
proof -
  from budget_loop [of N "[]" loads ck lines stdout t 0 "[]" 0] assms
  obtain pre post E W where
    "lines = pre @ post" "post \<noteq> []" "pre \<noteq> [] \<and> error_line loads ck (last pre)"
    "length (filter (error_line loads ck) pre) = N"
    "validateFile_loop stdout loads ck (int N) lines t 0 ([], [], 0) = Inr (E, W, int (length pre), True)"
    "length E = N"
    "validateFile_loop stdout loads ck (- 1) pre Returned 0 ([], [], 0) =
       Inr (E, W, (if pre = [] then 0 + 1 else 0 + int (length pre)), False)"
    by auto
  with assms(2) show ?thesis
    by (intro exI [of _ pre] exI [of _ post] exI [of _ E] exI [of _ W])
      (simp add: validateFile_def)
qed

theorem error_budget_witness:
  "safe_file_reader ([ustr ''{\"id\":\"A1\"}'', ustr ''['', ustr '']''], StopIteration) =
     ([ustr ''{\"id\":\"A1\"}'', ustr ''['', ustr '']''], Returned) \<and>
   2 < length (filter
     (error_line (\<lambda>l. if l = ustr ''{\"id\":\"A1\"}''
                        then Inr (PyDict [(ustr ''id'', PyUnicode (ustr ''A1''))])
                        else Inl ''No JSON object could be decoded'') artist_fields)
     [ustr ''{\"id\":\"A1\"}'', ustr ''['', ustr '']'']) \<and>
   validateFile (\<lambda>c. c < 128)
                (\<lambda>l. if l = ustr ''{\"id\":\"A1\"}''
                      then Inr (PyDict [(ustr ''id'', PyUnicode (ustr ''A1''))])
                      else Inl ''No JSON object could be decoded'')
     ([ustr ''{\"id\":\"A1\"}'', ustr ''['', ustr '']''], StopIteration) artist_fields 2 =
     Inr ([Does_not_match_schema 1 [Did_not_find_required_field (ustr ''name'')],
           Found_invalid_JSON 2 ''No JSON object could be decoded''], [], 2, True)"
proof -
  let ?loads = "\<lambda>l. if l = ustr ''{\"id\":\"A1\"}''
                      then Inr (PyDict [(ustr ''id'', PyUnicode (ustr ''A1''))])
                      else Inl ''No JSON object could be decoded''"
  let ?lines = "[ustr ''{\"id\":\"A1\"}'', ustr ''['', ustr '']'']"
  have v: "validate artist_fields (PyDict [(ustr ''id'', PyUnicode (ustr ''A1''))]) True =
      Inr ([Did_not_find_required_field (ustr ''name'')], [])"
    by (simp add: artist_fields_def eval_defs validate.simps DictFieldChecker_check_field.simps)
  have r: "safe_file_reader (?lines, StopIteration) = (?lines, Returned)"
    by (simp add: eval_defs)
  have e: "filter (error_line ?loads artist_fields) ?lines = ?lines"
    by (simp add: error_line_def v)
  have "\<not> raising_line (\<lambda>c. c < 128) ?loads artist_fields l" for l
    by (simp add: raising_line_def v)
  then have n: "\<forall>pre l post. ?lines = pre @ l # post \<and>
      length (filter (error_line ?loads artist_fields) pre) < 2 \<longrightarrow>
      \<not> raising_line (\<lambda>c. c < 128) ?loads artist_fields l"
    by blast
  have m: "2 < length (filter (error_line ?loads artist_fields) ?lines)"
    by (simp only: e) simp
  have "validateFile (\<lambda>c. c < 128) ?loads (?lines, StopIteration) artist_fields 2 =
      Inr ([Does_not_match_schema 1 [Did_not_find_required_field (ustr ''name'')],
            Found_invalid_JSON 2 ''No JSON object could be decoded''], [], 2, True)"
    by (simp add: validateFile_def r v Let_def) (simp add: ustr_def)
  with error_budget [of 2 "(?lines, StopIteration)" ?lines Returned ?loads artist_fields
      "\<lambda>c. c < 128", OF _ r _ n] m r
  show ?thesis by simp
qed

text \<open>
  Claim C2 says that with \<open>max_errors = N > 0\<close> and more than \<open>N\<close> error lines in the
  stream the run stops early with \<open>N\<close> errors. The driver does not get there on the two
  streams below, each with three error lines after its first line and \<open>N = 2\<close>. On the
  first, \<^verbatim>\<open>int()\<close> of the infinite \<open>release_year\<close> raises \<^verbatim>\<open>OverflowError\<close>, which
  \<^verbatim>\<open>except (TypeError, ValueError)\<close> in \<^verbatim>\<open>_check_field\<close> does not catch, nor does
  \<^verbatim>\<open>except UnicodeDecodeError\<close> in \<^verbatim>\<open>_validateFile\<close>: the run ends with this exception,
  whatever the encoding of the output. On the second, the warning for the blank \<open>name\<close>
  holds U+00A0, and on an output that encodes ASCII only its \<^verbatim>\<open>print\<close> raises
  \<^verbatim>\<open>UnicodeEncodeError\<close>, which is not caught either.
\<close>

theorem error_budget_not_reached:
  "2 < length (filter
     (error_line (\<lambda>l. if l = infinite_year_line then Inr infinite_year_record
                        else Inl ''No JSON object could be decoded'') track_fields)
     [infinite_year_line, ustr ''['', ustr '']'', ustr ''{'']) \<and>
   validateFile stdout
     (\<lambda>l. if l = infinite_year_line then Inr infinite_year_record
           else Inl ''No JSON object could be decoded'')
     ([infinite_year_line, ustr ''['', ustr '']'', ustr ''{''], StopIteration) track_fields 2 =
     Inl OverflowError \<and>
   2 < length (filter
     (error_line (\<lambda>l. if l = blank_name_line then Inr blank_name_record
                        else Inl ''No JSON object could be decoded'') artist_fields)
     [blank_name_line, ustr ''['', ustr '']'', ustr ''{'']) \<and>
   validateFile (\<lambda>c. c < 128)
     (\<lambda>l. if l = blank_name_line then Inr blank_name_record
           else Inl ''No JSON object could be decoded'')
     ([blank_name_line, ustr ''['', ustr '']'', ustr ''{''], StopIteration) artist_fields 2 =
     Inl UnicodeEncodeError"
proof -
  have y: "validate track_fields infinite_year_record True = Inl OverflowError"
    by (simp add: track_fields_def infinite_year_record_def validate.simps
        DictFieldChecker_check_field.simps eval_defs)
  have b: "validate artist_fields blank_name_record True =
      Inr ([], [Was_required (ustr ''name'') (PyUnicode [0xA0])])"
    by (simp add: artist_fields_def blank_name_record_def validate.simps
        DictFieldChecker_check_field.simps eval_defs)
  have l: "infinite_year_line \<noteq> []" "last infinite_year_line \<notin> set JSON_UNICODE_PROBLEMS"
    "infinite_year_line \<noteq> ustr ''[''" "infinite_year_line \<noteq> ustr '']''"
    "infinite_year_line \<noteq> ustr ''{''"
    "blank_name_line \<noteq> []" "last blank_name_line \<notin> set JSON_UNICODE_PROBLEMS"
    "blank_name_line \<noteq> ustr ''[''" "blank_name_line \<noteq> ustr '']''"
    "blank_name_line \<noteq> ustr ''{''"
    by (simp_all add: infinite_year_line_def blank_name_line_def ustr_def
        JSON_UNICODE_PROBLEMS_def)
  have n: "ustr ''['' \<noteq> []" "ustr '']'' \<noteq> []" "ustr ''{'' \<noteq> []"
    "last (ustr ''['') \<notin> set JSON_UNICODE_PROBLEMS"
    "last (ustr '']'') \<notin> set JSON_UNICODE_PROBLEMS"
    "last (ustr ''{'') \<notin> set JSON_UNICODE_PROBLEMS"
    by (simp_all add: ustr_def JSON_UNICODE_PROBLEMS_def)
  have p: "print_raises (\<lambda>c. c < 128) (warning_text (Was_required (ustr ''name'') (PyUnicode [0xA0])))"
    by (simp add: print_raises_def)
  show ?thesis
    using l n
    by (simp add: error_line_def validateFile_def safe_file_reader_def y b p Let_def
        del: warning_text.simps)
qed

end
